theory Spec2Isabelle
  imports Complex_Main "HOL-Library.Word"
begin

section \<open>JavaScript values and text\<close>

text \<open>
  A JavaScript string is a sequence of UTF-16 code units; \<open>length\<close>, \<open>slice\<close>, \<open>trim\<close> and
  the regular expressions of \<^verbatim>\<open>server.js\<close> all work on code units.  A literal of the
  source is written \<open>js ''...''\<close>.
\<close>

type_synonym jschar = "16 word"
type_synonym jsstring = "jschar list"

definition js :: "string \<Rightarrow> jsstring" where
  "js s = map (\<lambda>c. of_nat (of_char c)) s"

text \<open>
  The values a field of a parsed JSON body can hold, as far as the handlers look at them:
  \<open>undefined\<close> (the field is absent), \<open>null\<close>, booleans, numbers and strings.  \<open>JNum n\<close> is
  an integer-valued number of magnitude below \<open>10^21\<close>, the numbers that JavaScript prints
  in plain decimal; fractional numbers, and arrays or objects in the place of a scalar
  field, are outside the model.  An array of scalars (the field \<^verbatim>\<open>event_ids\<close>) is
  \<open>JList\<close>.
\<close>

datatype jsval = JUndefined | JNull | JBool bool | JNum int | JStr jsstring

datatype jsfield = JScalar jsval | JList "jsval list"

fun typeof :: "jsval \<Rightarrow> string" where
  "typeof JUndefined = ''undefined''"
| "typeof JNull = ''object''"
| "typeof (JBool b) = ''boolean''"
| "typeof (JNum n) = ''number''"
| "typeof (JStr s) = ''string''"

text \<open>Truthiness, as tested by \<^verbatim>\<open>!v\<close> and \<^verbatim>\<open>v ? a : b\<close>.\<close>

fun truthy :: "jsval \<Rightarrow> bool" where
  "truthy JUndefined = False"
| "truthy JNull = False"
| "truthy (JBool b) = b"
| "truthy (JNum n) = (n \<noteq> 0)"
| "truthy (JStr s) = (s \<noteq> [])"

text \<open>\<^verbatim>\<open>String(v)\<close>.  A non-negative integer is printed digit by digit.\<close>

function decimal :: "int \<Rightarrow> jsstring" where
  "decimal n = (if n < 10 then [of_int (48 + n)] else decimal (n div 10) @ [of_int (48 + n mod 10)])"
  by pat_completeness auto
termination
  by (relation "measure nat") auto

declare decimal.simps [simp del]

fun ToString :: "jsval \<Rightarrow> jsstring" where
  "ToString JUndefined = js ''undefined''"
| "ToString JNull = js ''null''"
| "ToString (JBool b) = (if b then js ''true'' else js ''false'')"
| "ToString (JNum n) = (if n < 0 then js ''-'' @ decimal (- n) else decimal n)"
| "ToString (JStr s) = s"

subsection \<open>Character classes\<close>

text \<open>\<^verbatim>\<open>\d\<close>: the ten ASCII digits.\<close>

definition is_digit :: "jschar \<Rightarrow> bool" where
  "is_digit c = (0x30 \<le> c \<and> c \<le> 0x39)"

text \<open>
  \<^verbatim>\<open>[0-9a-f]\<close> under the flag \<^verbatim>\<open>i\<close>: without the flag \<^verbatim>\<open>u\<close> a code unit outside ASCII is
  never folded onto an ASCII letter, so the class is the ASCII hexadecimal digits.
\<close>

definition is_hex :: "jschar \<Rightarrow> bool" where
  "is_hex c = (is_digit c \<or> (0x61 \<le> c \<and> c \<le> 0x66) \<or> (0x41 \<le> c \<and> c \<le> 0x46))"

definition is_hyphen :: "jschar \<Rightarrow> bool" where
  "is_hyphen c = (c = 0x2D)"

text \<open>
  The code units that \<^verbatim>\<open>String.prototype.trim\<close> strips: WhiteSpace and LineTerminator of
  ECMAScript.
\<close>

definition is_space :: "jschar \<Rightarrow> bool" where
  "is_space c = ((0x09 \<le> c \<and> c \<le> 0x0D) \<or> c = 0x20 \<or> c = 0xA0 \<or> c = 0x1680
     \<or> (0x2000 \<le> c \<and> c \<le> 0x200A) \<or> c = 0x2028 \<or> c = 0x2029 \<or> c = 0x202F
     \<or> c = 0x205F \<or> c = 0x3000 \<or> c = 0xFEFF)"

text \<open>The class \<^verbatim>\<open>[<>"'`]\<close> of \<^verbatim>\<open>sanitize\<close>.\<close>

definition is_markup :: "jschar \<Rightarrow> bool" where
  "is_markup c = (c = 0x3C \<or> c = 0x3E \<or> c = 0x22 \<or> c = 0x27 \<or> c = 0x60)"

definition trim :: "jsstring \<Rightarrow> jsstring" where
  "trim s = rev (dropWhile is_space (rev (dropWhile is_space s)))"

text \<open>
  A regular expression of the shape \<^verbatim>\<open>^c1 c2 ... cn$\<close>, one character class per position,
  matches a string when the string has \<open>n\<close> code units and each lies in its class
  (\<^verbatim>\<open>$\<close> without the flag \<^verbatim>\<open>m\<close> matches at the very end only).
\<close>

definition matches :: "(jschar \<Rightarrow> bool) list \<Rightarrow> jsstring \<Rightarrow> bool" where
  "matches classes s = list_all2 (\<lambda>cl c. cl c) classes s"

subsection \<open>Validators (server.js 38-41)\<close>

definition uuid_pattern :: "(jschar \<Rightarrow> bool) list" where
  "uuid_pattern = replicate 8 is_hex @ [is_hyphen] @ replicate 4 is_hex @ [is_hyphen]
     @ replicate 4 is_hex @ [is_hyphen] @ replicate 4 is_hex @ [is_hyphen] @ replicate 12 is_hex"

definition isUUID :: "jsval \<Rightarrow> bool" where
  "isUUID v = matches uuid_pattern (ToString v)"

definition isPhone :: "jsval \<Rightarrow> bool" where
  "isPhone v = matches (replicate 10 is_digit) (ToString v)"

definition isEmail :: "jsval \<Rightarrow> bool" where
  "isEmail v = (case v of JStr s \<Rightarrow> 0x40 \<in> set s \<and> length s \<le> 254 | _ \<Rightarrow> False)"

definition sanitize :: "jsval \<Rightarrow> jsstring" where
  "sanitize v = take 500 (filter (\<lambda>c. \<not> is_markup c) (trim (ToString v)))"

text \<open>
  \<^verbatim>\<open>toLowerCase\<close> and \<^verbatim>\<open>toUpperCase\<close> follow the Unicode case tables, which are not
  spelt out here: the handlers take the two mappings as a parameter, and every
  theorem below holds whatever they are.
\<close>

record casemap =
  toLowerCase :: "jsstring \<Rightarrow> jsstring"
  toUpperCase :: "jsstring \<Rightarrow> jsstring"

section \<open>The persistence gateway\<close>

text \<open>
  The handlers reach the tables \<^verbatim>\<open>Events\<close>, \<^verbatim>\<open>Students\<close> and \<^verbatim>\<open>Registrations\<close> through
  the database client.  A table is the list of its rows, each the primary key \<^verbatim>\<open>id\<close>
  with the other columns; columns that no modelled handler reads or writes
  (\<^verbatim>\<open>title\<close>, \<^verbatim>\<open>registered_at\<close>, \<^verbatim>\<open>created_at\<close>) are left out.  The database draws the key
  of a new row itself: \<open>id_pool\<close> is the sequence of keys it will draw and \<open>id_used\<close>
  counts those drawn so far.
\<close>

type_synonym uuid = jsstring

record student =
  s_student_id :: "jsstring option"
  s_name :: jsstring
  s_phone_number :: jsstring
  s_email :: jsstring

record registration =
  r_student_id :: uuid
  r_event_id :: uuid
  r_member_id :: uuid
  r_payment_method :: jsstring
  r_transaction_id :: "jsstring option"
  r_amount_paid :: "rat option"

record db =
  Events :: "(uuid \<times> rat) list"
  Students :: "(uuid \<times> student) list"
  Registrations :: "(uuid \<times> registration) list"
  id_pool :: "nat \<Rightarrow> uuid"
  id_used :: nat

text \<open>An error of the gateway, with its \<^verbatim>\<open>code\<close>; \<^verbatim>\<open>23505\<close> is a uniqueness violation.\<close>

datatype db_error = DbError string

fun err_code :: "db_error \<Rightarrow> string" where
  "err_code (DbError c) = c"

text \<open>
  \<^verbatim>\<open>.single()\<close> gives the row when the query selects exactly one and an error otherwise;
  \<^verbatim>\<open>.maybeSingle()\<close> also accepts no row.  \<open>data\<close> is the \<^verbatim>\<open>data\<close> member of a result,
  \<^verbatim>\<open>null\<close> when there is an error.
\<close>

definition single :: "'a list \<Rightarrow> db_error + 'a" where
  "single rows = (case rows of [r] \<Rightarrow> Inr r | _ \<Rightarrow> Inl (DbError ''PGRST116''))"

definition maybeSingle :: "'a list \<Rightarrow> db_error + 'a option" where
  "maybeSingle rows =
     (case rows of [] \<Rightarrow> Inr None | [r] \<Rightarrow> Inr (Some r) | _ \<Rightarrow> Inl (DbError ''PGRST116''))"

definition data :: "db_error + 'a \<Rightarrow> 'a option" where
  "data res = (case res of Inl e \<Rightarrow> None | Inr x \<Rightarrow> Some x)"

definition data_maybe :: "db_error + 'a option \<Rightarrow> 'a option" where
  "data_maybe res = (case res of Inl e \<Rightarrow> None | Inr x \<Rightarrow> x)"

subsection \<open>Reads\<close>

definition events_eq_id :: "db \<Rightarrow> uuid \<Rightarrow> (uuid \<times> rat) list" where
  "events_eq_id d i = filter (\<lambda>(j, c). j = i) (Events d)"

definition events_in_id :: "db \<Rightarrow> uuid list \<Rightarrow> (uuid \<times> rat) list" where
  "events_in_id d ids = filter (\<lambda>(j, c). j \<in> set ids) (Events d)"

definition students_eq_phone :: "db \<Rightarrow> jsstring \<Rightarrow> (uuid \<times> student) list" where
  "students_eq_phone d p = filter (\<lambda>(j, s). s_phone_number s = p) (Students d)"

definition students_eq_student_id :: "db \<Rightarrow> jsstring \<Rightarrow> (uuid \<times> student) list" where
  "students_eq_student_id d c = filter (\<lambda>(j, s). s_student_id s = Some c) (Students d)"

definition registrations_eq_id :: "db \<Rightarrow> uuid \<Rightarrow> (uuid \<times> registration) list" where
  "registrations_eq_id d i = filter (\<lambda>(j, r). j = i) (Registrations d)"

definition registrations_of :: "db \<Rightarrow> uuid \<Rightarrow> uuid list \<Rightarrow> (uuid \<times> registration) list" where
  "registrations_of d sid ids =
     filter (\<lambda>(j, r). r_student_id r = sid \<and> r_event_id r \<in> set ids) (Registrations d)"

subsection \<open>Writes and the uniqueness constraints\<close>

text \<open>
  The schema of the database is not among the sources.  The spec names its
  constraints: a student's phone, email and external student code are unique, and
  there is at most one Registration per (student, event) pair, "enforced as a
  uniqueness constraint at the persistence layer".  The writes below check these
  constraints and nothing else: a write that would break one of them is refused whole
  with the code \<^verbatim>\<open>23505\<close>, the code the handlers test for, and leaves the table as it
  was; any other write succeeds.
\<close>

text \<open>
  Modelled from the spec: the uniqueness constraints of the table \<^verbatim>\<open>Students\<close>, which
  the missing schema declares.  A row clashes with a table when one of the table's rows
  has its phone, its email or its (non-null) student code.
\<close>

definition students_clash :: "(uuid \<times> student) list \<Rightarrow> student \<Rightarrow> bool" where
  "students_clash t s =
     (\<exists>(j, r) \<in> set t. s_phone_number r = s_phone_number s \<or> s_email r = s_email s
        \<or> (s_student_id s \<noteq> None \<and> s_student_id r = s_student_id s))"

text \<open>
  Modelled from the spec: \<^verbatim>\<open>insert\<close> into \<^verbatim>\<open>Students\<close> under the missing schema's
  constraints; the new row gets the next key of the pool and is returned.
\<close>

definition students_insert :: "db \<Rightarrow> student \<Rightarrow> db_error + (db \<times> (uuid \<times> student))" where
  "students_insert d s =
     (if students_clash (Students d) s then Inl (DbError ''23505'')
      else let row = (id_pool d (id_used d), s)
           in Inr (d\<lparr>Students := Students d @ [row], id_used := Suc (id_used d)\<rparr>, row))"

text \<open>
  Modelled from the spec: \<^verbatim>\<open>update(...).eq('id', i)\<close> on \<^verbatim>\<open>Students\<close> under the missing
  schema's constraints; the changed row must not clash with the other rows.
\<close>

definition students_update :: "db \<Rightarrow> uuid \<Rightarrow> (student \<Rightarrow> student) \<Rightarrow> db_error + db" where
  "students_update d i f =
     (if \<exists>(j, s) \<in> set (Students d). j = i
           \<and> students_clash (filter (\<lambda>(k, q). k \<noteq> i) (Students d)) (f s)
      then Inl (DbError ''23505'')
      else Inr (d\<lparr>Students := map (\<lambda>(j, s). if j = i then (j, f s) else (j, s)) (Students d)\<rparr>))"

definition pair_of :: "registration \<Rightarrow> uuid \<times> uuid" where
  "pair_of r = (r_student_id r, r_event_id r)"

text \<open>The (student, event) pairs that have a registration, one entry per row.\<close>

definition pairs :: "db \<Rightarrow> (uuid \<times> uuid) list" where
  "pairs d = map (pair_of \<circ> snd) (Registrations d)"

text \<open>
  Modelled from the spec: \<^verbatim>\<open>insert\<close> of one or several rows into \<^verbatim>\<open>Registrations\<close>
  under the missing schema's constraint of one row per (student, event) pair.  The
  rows are stored together or not at all.
\<close>

definition registrations_insert :: "db \<Rightarrow> registration list \<Rightarrow> db_error + db" where
  "registrations_insert d rows =
     (if distinct (map pair_of rows)
         \<and> (\<forall>r \<in> set rows. pair_of r \<notin> set (map (pair_of \<circ> snd) (Registrations d)))
      then Inr (d\<lparr>Registrations := Registrations d
                     @ zip (map (id_pool d) [id_used d ..< id_used d + length rows]) rows,
                   id_used := id_used d + length rows\<rparr>)
      else Inl (DbError ''23505''))"

text \<open>
  Modelled from the spec: \<^verbatim>\<open>update(...).eq('id', i)\<close> on \<^verbatim>\<open>Registrations\<close> under the
  same constraint.
\<close>

definition registrations_update :: "db \<Rightarrow> uuid \<Rightarrow> (registration \<Rightarrow> registration) \<Rightarrow> db_error + db" where
  "registrations_update d i f =
     (if \<exists>(j, r) \<in> set (Registrations d). j = i
           \<and> pair_of (f r) \<in> set (map (pair_of \<circ> snd) (filter (\<lambda>(k, q). k \<noteq> i) (Registrations d)))
      then Inl (DbError ''23505'')
      else Inr (d\<lparr>Registrations := map (\<lambda>(j, r). if j = i then (j, f r) else (j, r)) (Registrations d)\<rparr>))"

text \<open>\<^verbatim>\<open>delete().eq('id', i)\<close> on \<^verbatim>\<open>Registrations\<close>; no constraint can refuse it.\<close>

definition registrations_delete :: "db \<Rightarrow> uuid \<Rightarrow> db_error + db" where
  "registrations_delete d i = Inr (d\<lparr>Registrations := filter (\<lambda>(j, r). j \<noteq> i) (Registrations d)\<rparr>)"

section \<open>Requests and replies\<close>

text \<open>
  The parsed JSON body of a request: the fields that the handlers destructure, and
  \<open>b_other\<close> for every other field that a client may send (an \<^verbatim>\<open>amount\<close>, say), by name.
\<close>

record body =
  b_student_id :: jsval
  b_name :: jsval
  b_phone :: jsval
  b_email :: jsval
  b_event_id :: jsval
  b_event_ids :: jsfield
  b_payment_method :: jsval
  b_transaction_id :: jsval
  b_other :: "string \<Rightarrow> jsval"

text \<open>
  The identity that \<^verbatim>\<open>requireAuth\<close> puts on the request.  In the first file of
  \<^verbatim>\<open>part_000\<close> a session holds no role (\<open>identity_first\<close>).
\<close>

record identity =
  u_id :: uuid
  u_name :: jsstring
  u_email :: jsstring
  u_role :: jsval

record identity_first =
  sp_id :: uuid
  sp_name :: jsstring
  sp_email :: jsstring

text \<open>
  A reply is the HTTP status and the JSON sent: \<^verbatim>\<open>{error: text}\<close>, an error whose text
  is a prefix followed by the gateway's own message, \<^verbatim>\<open>{ok: true}\<close>, or
  \<^verbatim>\<open>{ok: true, count, skipped}\<close>.
\<close>

datatype reply_body = Error string | ErrorDb string db_error | Ok | OkCount nat nat

datatype reply = Reply nat reply_body

fun status :: "reply \<Rightarrow> nat" where
  "status (Reply n b) = n"

definition cash :: jsval where "cash = JStr (js ''cash'')"
definition upi :: jsval where "upi = JStr (js ''upi'')"
definition admin :: jsval where "admin = JStr (js ''admin'')"

text \<open>\<^verbatim>\<open>transaction_id ? sanitize(transaction_id) : null\<close>\<close>

definition cleanTxn :: "body \<Rightarrow> jsstring option" where
  "cleanTxn b = (if truthy (b_transaction_id b) then Some (sanitize (b_transaction_id b)) else None)"

text \<open>\<^verbatim>\<open>payment_method === 'upi' ? cleanTxn : null\<close>\<close>

definition txn_column :: "body \<Rightarrow> jsstring option" where
  "txn_column b = (if b_payment_method b = upi then cleanTxn b else None)"

section \<open>The handlers of server.js\<close>

subsection \<open>POST /api/register (server.js 204-251)\<close>

definition register_checks :: "body \<Rightarrow> reply option" where
  "register_checks b =
     (if \<not> truthy (b_name b) \<or> \<not> truthy (b_phone b) \<or> \<not> truthy (b_email b)
          \<or> \<not> truthy (b_event_id b) \<or> \<not> truthy (b_payment_method b)
      then Some (Reply 400 (Error ''Missing required fields.''))
      else if \<not> isPhone (b_phone b) then Some (Reply 400 (Error ''Phone must be exactly 10 digits.''))
      else if \<not> isEmail (b_email b) then Some (Reply 400 (Error ''Invalid email address.''))
      else if \<not> isUUID (b_event_id b) then Some (Reply 400 (Error ''Invalid event.''))
      else if b_payment_method b \<notin> set [cash, upi] then Some (Reply 400 (Error ''Invalid payment method.''))
      else if b_payment_method b = upi \<and> \<not> truthy (b_transaction_id b)
      then Some (Reply 400 (Error ''UPI transaction ID required.''))
      else None)"

text \<open>
  Lines 222-235: the student is looked up by phone; a student found has name and email
  overwritten (the result of that update is not looked at), otherwise one is created.
\<close>

definition upsert_by_phone :: "casemap \<Rightarrow> db \<Rightarrow> body \<Rightarrow> (reply \<times> db) + (uuid \<times> db)" where
  "upsert_by_phone cm d b =
     (let cleanName = sanitize (b_name b);
          cleanEmail = toLowerCase cm (sanitize (b_email b))
      in case data_maybe (maybeSingle (students_eq_phone d (ToString (b_phone b)))) of
           Some (studentId, existing) \<Rightarrow>
             (case students_update d studentId (\<lambda>s. s\<lparr>s_name := cleanName, s_email := cleanEmail\<rparr>) of
                Inl e \<Rightarrow> Inr (studentId, d)
              | Inr d' \<Rightarrow> Inr (studentId, d'))
         | None \<Rightarrow>
             (case students_insert d \<lparr>s_student_id = None, s_name = cleanName,
                       s_phone_number = ToString (b_phone b), s_email = cleanEmail\<rparr> of
                Inl stuErr \<Rightarrow>
                  Inl (if err_code stuErr = ''23505''
                       then Reply 400 (Error ''Email already used by another student.'')
                       else Reply 500 (Error ''Failed to save student.''), d)
              | Inr (d', (studentId, newStu)) \<Rightarrow> Inr (studentId, d')))"

definition post_register :: "casemap \<Rightarrow> db \<Rightarrow> identity \<Rightarrow> body \<Rightarrow> reply \<times> db" where
  "post_register cm d user b =
     (case register_checks b of
        Some r \<Rightarrow> (r, d)
      | None \<Rightarrow>
          (case single (events_eq_id d (ToString (b_event_id b))) of
             Inl evErr \<Rightarrow> (Reply 400 (Error ''Event not found.''), d)
           | Inr (eid, cost) \<Rightarrow>
               (case upsert_by_phone cm d b of
                  Inl (r, d') \<Rightarrow> (r, d')
                | Inr (studentId, d1) \<Rightarrow>
                    (case registrations_insert d1
                            [\<lparr>r_student_id = studentId, r_event_id = ToString (b_event_id b),
                              r_member_id = u_id user,
                              r_payment_method = ToString (b_payment_method b),
                              r_transaction_id = txn_column b, r_amount_paid = Some cost\<rparr>] of
                       Inl regErr \<Rightarrow>
                         (if err_code regErr = ''23505''
                          then Reply 400 (Error ''Student already registered for this event.'')
                          else Reply 500 (Error ''Failed to create registration.''), d1)
                     | Inr d2 \<Rightarrow> (Reply 200 Ok, d2)))))"

subsection \<open>PUT /api/sales/:id (server.js 254-290)\<close>

definition put_checks :: "jsstring \<Rightarrow> body \<Rightarrow> reply option" where
  "put_checks sale_id b =
     (if \<not> isUUID (JStr sale_id) \<or> \<not> isUUID (JStr (ToString (b_student_id b)))
          \<or> \<not> isUUID (JStr (ToString (b_event_id b)))
      then Some (Reply 400 (Error ''Invalid IDs.''))
      else if \<not> truthy (b_name b) \<or> \<not> truthy (b_phone b) \<or> \<not> truthy (b_email b)
          \<or> \<not> truthy (b_payment_method b)
      then Some (Reply 400 (Error ''Missing fields.''))
      else if \<not> isPhone (b_phone b) then Some (Reply 400 (Error ''Phone must be 10 digits.''))
      else if \<not> isEmail (b_email b) then Some (Reply 400 (Error ''Invalid email.''))
      else if b_payment_method b \<notin> set [cash, upi] then Some (Reply 400 (Error ''Invalid payment method.''))
      else if b_payment_method b = upi \<and> \<not> truthy (b_transaction_id b)
      then Some (Reply 400 (Error ''UPI transaction ID required.''))
      else None)"

definition put_sales :: "casemap \<Rightarrow> db \<Rightarrow> identity \<Rightarrow> jsstring \<Rightarrow> body \<Rightarrow> reply \<times> db" where
  "put_sales cm d user sale_id b =
     (case put_checks sale_id b of
        Some r \<Rightarrow> (r, d)
      | None \<Rightarrow>
          (case data (single (registrations_eq_id d sale_id)) of
             None \<Rightarrow> (Reply 404 (Error ''Registration not found.''), d)
           | Some (rid, check) \<Rightarrow>
               if u_role user \<noteq> admin \<and> r_member_id check \<noteq> u_id user
               then (Reply 403 (Error ''Not authorized.''), d)
               else
                 (case data (single (events_eq_id d (ToString (b_event_id b)))) of
                    None \<Rightarrow> (Reply 400 (Error ''Event not found.''), d)
                  | Some (eid, cost) \<Rightarrow>
                      let d1 = (case students_update d (ToString (b_student_id b))
                                       (\<lambda>s. s\<lparr>s_name := sanitize (b_name b),
                                               s_phone_number := ToString (b_phone b),
                                               s_email := toLowerCase cm (sanitize (b_email b))\<rparr>) of
                                  Inl e \<Rightarrow> d | Inr d' \<Rightarrow> d')
                      in (case registrations_update d1 sale_id
                                 (\<lambda>r. r\<lparr>r_event_id := ToString (b_event_id b),
                                         r_payment_method := ToString (b_payment_method b),
                                         r_transaction_id := txn_column b,
                                         r_amount_paid := Some cost\<rparr>) of
                            Inl regErr \<Rightarrow> (Reply 500 (ErrorDb [] regErr), d1)
                          | Inr d2 \<Rightarrow> (Reply 200 Ok, d2)))))"

subsection \<open>DELETE /api/sales/:id (server.js 293-305)\<close>

definition delete_sales :: "db \<Rightarrow> identity \<Rightarrow> jsstring \<Rightarrow> reply \<times> db" where
  "delete_sales d user sale_id =
     (if \<not> isUUID (JStr sale_id) then (Reply 400 (Error ''Invalid ID.''), d)
      else
        (case data (single (registrations_eq_id d sale_id)) of
           None \<Rightarrow> (Reply 404 (Error ''Not found.''), d)
         | Some (rid, check) \<Rightarrow>
             if u_role user \<noteq> admin \<and> r_member_id check \<noteq> u_id user
             then (Reply 403 (Error ''Not authorized.''), d)
             else
               (case registrations_delete d sale_id of
                  Inl e \<Rightarrow> (Reply 500 (ErrorDb [] e), d)
                | Inr d' \<Rightarrow> (Reply 200 Ok, d'))))"

section \<open>The first file of part_000: PUT /api/sales/:id (162-208)\<close>

text \<open>
  This revision has no roles: only the member who made a registration may edit it.
  Its \<^verbatim>\<open>isUUID\<close> and \<^verbatim>\<open>isPhone\<close> hand their argument to \<^verbatim>\<open>RegExp.test\<close>, which turns it
  into a string itself, so they are the functions \<open>isUUID\<close> and \<open>isPhone\<close> above.
\<close>

definition put_checks_first :: "jsstring \<Rightarrow> body \<Rightarrow> reply option" where
  "put_checks_first sale_id b =
     (if \<not> truthy (b_name b) \<or> \<not> truthy (b_phone b) \<or> \<not> truthy (b_email b)
          \<or> \<not> truthy (b_event_id b) \<or> \<not> truthy (b_payment_method b)
      then Some (Reply 400 (Error ''Missing required fields.''))
      else if \<not> isUUID (JStr (ToString (JStr sale_id))) then Some (Reply 400 (Error ''Invalid registration ID.''))
      else if \<not> isUUID (JStr (ToString (b_student_id b))) then Some (Reply 400 (Error ''Invalid student ID.''))
      else if \<not> isPhone (JStr (ToString (b_phone b))) then Some (Reply 400 (Error ''Phone must be exactly 10 digits.''))
      else if \<not> isEmail (b_email b) then Some (Reply 400 (Error ''Invalid email address.''))
      else if \<not> isUUID (JStr (ToString (b_event_id b))) then Some (Reply 400 (Error ''Invalid event.''))
      else if b_payment_method b \<notin> set [cash, upi] then Some (Reply 400 (Error ''Invalid payment method.''))
      else if b_payment_method b = upi \<and> \<not> truthy (b_transaction_id b)
      then Some (Reply 400 (Error ''UPI transaction ID is required.''))
      else None)"

definition put_sales_first :: "casemap \<Rightarrow> db \<Rightarrow> identity_first \<Rightarrow> jsstring \<Rightarrow> body \<Rightarrow> reply \<times> db" where
  "put_sales_first cm d sp sale_id b =
     (case put_checks_first sale_id b of
        Some r \<Rightarrow> (r, d)
      | None \<Rightarrow>
          (case data (single (registrations_eq_id d sale_id)) of
             None \<Rightarrow> (Reply 403 (Error ''Not authorized.''), d)
           | Some (rid, check) \<Rightarrow>
               if r_member_id check \<noteq> sp_id sp
               then (Reply 403 (Error ''Not authorized.''), d)
               else
                 (case data (single (events_eq_id d (ToString (b_event_id b)))) of
                    None \<Rightarrow> (Reply 400 (Error ''Event not found.''), d)
                  | Some (eid, cost) \<Rightarrow>
                      (case students_update d (ToString (b_student_id b))
                              (\<lambda>s. s\<lparr>s_name := sanitize (b_name b),
                                      s_phone_number := ToString (b_phone b),
                                      s_email := toLowerCase cm (sanitize (b_email b))\<rparr>) of
                         Inl stuErr \<Rightarrow> (Reply 500 (Error ''Failed to update student.''), d)
                       | Inr d1 \<Rightarrow>
                           (case registrations_update d1 sale_id
                                   (\<lambda>r. r\<lparr>r_event_id := ToString (b_event_id b),
                                           r_payment_method := ToString (b_payment_method b),
                                           r_transaction_id := txn_column b,
                                           r_amount_paid := Some cost\<rparr>) of
                              Inl regErr \<Rightarrow> (Reply 500 (Error ''Failed to update registration.''), d1)
                            | Inr d2 \<Rightarrow> (Reply 200 Ok, d2))))))"

section \<open>The second file of part_000: POST /api/register for several events (512-586)\<close>

text \<open>\<^verbatim>\<open>event_ids?.length\<close>: only arrays and strings have a length.\<close>

definition length_of :: "jsfield \<Rightarrow> nat option" where
  "length_of f =
     (case f of JList xs \<Rightarrow> Some (length xs)
      | JScalar v \<Rightarrow> (case v of JStr s \<Rightarrow> Some (length s) | _ \<Rightarrow> None))"

definition elements :: "jsfield \<Rightarrow> jsval list" where
  "elements f = (case f of JList xs \<Rightarrow> xs | JScalar v \<Rightarrow> [])"

definition batch_checks :: "body \<Rightarrow> reply option" where
  "batch_checks b =
     (if \<not> truthy (b_student_id b) \<or> \<not> truthy (b_name b) \<or> \<not> truthy (b_phone b)
          \<or> \<not> truthy (b_email b) \<or> length_of (b_event_ids b) \<in> {None, Some 0}
          \<or> \<not> truthy (b_payment_method b)
      then Some (Reply 400 (Error ''Missing required fields.''))
      else if \<not> isPhone (b_phone b) then Some (Reply 400 (Error ''Phone must be 10 digits.''))
      else if \<not> isEmail (b_email b) then Some (Reply 400 (Error ''Invalid email.''))
      else if (case b_event_ids b of JList ids \<Rightarrow> \<exists>v \<in> set ids. \<not> isUUID v | JScalar v \<Rightarrow> True)
      then Some (Reply 400 (Error ''Invalid event selection.''))
      else if b_payment_method b \<notin> set [cash, upi] then Some (Reply 400 (Error ''Invalid payment method.''))
      else if b_payment_method b = upi \<and> \<not> truthy (b_transaction_id b)
      then Some (Reply 400 (Error ''UPI transaction ID required.''))
      else None)"

text \<open>Lines 534-553: the student is looked up by the cleaned, upper-cased student code.\<close>

definition upsert_by_student_id :: "casemap \<Rightarrow> db \<Rightarrow> body \<Rightarrow> (reply \<times> db) + (uuid \<times> db)" where
  "upsert_by_student_id cm d b =
     (let cleanName = sanitize (b_name b);
          cleanEmail = toLowerCase cm (sanitize (b_email b));
          cleanStudId = toUpperCase cm (sanitize (b_student_id b))
      in case data_maybe (maybeSingle (students_eq_student_id d cleanStudId)) of
           Some (studentDbId, existing) \<Rightarrow>
             (case students_update d studentDbId
                     (\<lambda>s. s\<lparr>s_name := cleanName, s_email := cleanEmail,
                             s_phone_number := ToString (b_phone b)\<rparr>) of
                Inl e \<Rightarrow> Inr (studentDbId, d)
              | Inr d' \<Rightarrow> Inr (studentDbId, d'))
         | None \<Rightarrow>
             (case students_insert d \<lparr>s_student_id = Some cleanStudId, s_name = cleanName,
                       s_phone_number = ToString (b_phone b), s_email = cleanEmail\<rparr> of
                Inl stuErr \<Rightarrow>
                  Inl (if err_code stuErr = ''23505''
                       then Reply 400 (Error ''Phone or email already used by another student.'')
                       else Reply 500 (Error ''Failed to save student.''), d)
              | Inr (d', (studentDbId, newStu)) \<Rightarrow> Inr (studentDbId, d')))"

text \<open>\<^verbatim>\<open>alreadyRegistered.has(eid)\<close>: the set holds strings, and membership is strict.\<close>

definition has :: "jsstring list \<Rightarrow> jsval \<Rightarrow> bool" where
  "has registered eid = (case eid of JStr s \<Rightarrow> s \<in> set registered | _ \<Rightarrow> False)"

text \<open>
  Lines 555-563: the events of the request for which the student has a registration
  already (the set \<^verbatim>\<open>alreadyRegistered\<close>, kept as the list of its members) and the
  others.
\<close>

definition alreadyRegistered :: "db \<Rightarrow> uuid \<Rightarrow> jsval list \<Rightarrow> jsstring list" where
  "alreadyRegistered d studentDbId event_ids =
     remdups (map (\<lambda>(j, r). r_event_id r) (registrations_of d studentDbId (map ToString event_ids)))"

definition newEventIds :: "db \<Rightarrow> uuid \<Rightarrow> jsval list \<Rightarrow> jsval list" where
  "newEventIds d studentDbId event_ids =
     filter (\<lambda>eid. \<not> has (alreadyRegistered d studentDbId event_ids) eid) event_ids"

text \<open>
  Lines 570-578: one row per new event, priced from \<^verbatim>\<open>eventMap\<close>;
  \<^verbatim>\<open>Object.fromEntries\<close> lets a later entry win, and an id that \<^verbatim>\<open>eventsData\<close> lacks has
  no price.
\<close>

definition registrations_for ::
  "(uuid \<times> rat) list \<Rightarrow> uuid \<Rightarrow> identity \<Rightarrow> body \<Rightarrow> jsval list \<Rightarrow> registration list" where
  "registrations_for eventsData studentDbId user b ids =
     (let eventMap = map_of (rev eventsData)
      in map (\<lambda>eid. \<lparr>r_student_id = studentDbId, r_event_id = ToString eid,
                      r_member_id = u_id user,
                      r_payment_method = ToString (b_payment_method b),
                      r_transaction_id = txn_column b,
                      r_amount_paid = eventMap (ToString eid)\<rparr>) ids)"

text \<open>
  The handler awaits the gateway between its steps, and other requests run meanwhile.
  \<open>others\<close> is what they do to the database between the read of the student's existing
  registrations (line 556) and the batch insert (line 580); \<open>post_register_batch\<close> is
  the handler running alone.
\<close>

definition post_register_batch_with ::
  "(db \<Rightarrow> db) \<Rightarrow> casemap \<Rightarrow> db \<Rightarrow> identity \<Rightarrow> body \<Rightarrow> reply \<times> db" where
  "post_register_batch_with others cm d user b =
     (case batch_checks b of
        Some r \<Rightarrow> (r, d)
      | None \<Rightarrow>
          let event_ids = elements (b_event_ids b);
              eventsData = events_in_id d (map ToString event_ids)
          in if eventsData = [] then (Reply 400 (Error ''One or more events not found.''), d)
             else
               (case upsert_by_student_id cm d b of
                  Inl (r, d') \<Rightarrow> (r, d')
                | Inr (studentDbId, d1) \<Rightarrow>
                    if newEventIds d1 studentDbId event_ids = []
                    then (Reply 400 (Error ''Student is already registered for all selected events.''), d1)
                    else
                      let registrations = registrations_for eventsData studentDbId user b
                                            (newEventIds d1 studentDbId event_ids)
                      in (case registrations_insert (others d1) registrations of
                            Inl regErr \<Rightarrow>
                              (Reply 500 (ErrorDb ''Failed to create registration: '' regErr), others d1)
                          | Inr d2 \<Rightarrow>
                              (Reply 200 (OkCount (length registrations)
                                            (length (alreadyRegistered d1 studentDbId event_ids))), d2))))"

definition post_register_batch :: "casemap \<Rightarrow> db \<Rightarrow> identity \<Rightarrow> body \<Rightarrow> reply \<times> db" where
  "post_register_batch cm d user b = post_register_batch_with (\<lambda>d. d) cm d user b"

section \<open>Sessions (server.js 20-30, 64-66 and 72-75)\<close>

text \<open>
  The session store is the \<^verbatim>\<open>Map\<close> from tokens to identities, together with the
  callbacks that \<^verbatim>\<open>setTimeout\<close> has pending.  Time is a simulated clock in milliseconds:
  \<open>advance\<close> moves it forward and runs every callback that has become due, so a request
  handled at or after a callback's due time finds the callback already run.
\<close>

type_synonym token = jsstring

record server =
  sessions :: "token \<rightharpoonup> identity"
  timers :: "(nat \<times> token) list"
  now :: nat

definition ttl :: nat where
  "ttl = 12 * 60 * 60 * 1000"

text \<open>
  Lines 64-66, the end of a successful \<^verbatim>\<open>POST /api/login\<close>: \<open>tok\<close> is the value drawn
  by \<^verbatim>\<open>makeToken()\<close> and \<open>ident\<close> the member found.
\<close>

definition login_session :: "token \<Rightarrow> identity \<Rightarrow> server \<Rightarrow> server" where
  "login_session tok ident s =
     s\<lparr>sessions := (sessions s)(tok \<mapsto> ident), timers := timers s @ [(now s + ttl, tok)]\<rparr>"

text \<open>\<^verbatim>\<open>requireAuth\<close>, on the value of the header \<^verbatim>\<open>x-session\<close> (\<open>None\<close> when it is not sent).\<close>

definition requireAuth :: "server \<Rightarrow> jsstring option \<Rightarrow> reply + identity" where
  "requireAuth s hdr =
     (case hdr of
        None \<Rightarrow> Inl (Reply 401 (Error ''Not logged in.''))
      | Some tok \<Rightarrow>
          if tok = [] then Inl (Reply 401 (Error ''Not logged in.''))
          else (case sessions s tok of
                  None \<Rightarrow> Inl (Reply 401 (Error ''Not logged in.''))
                | Some user \<Rightarrow> Inr user))"

definition post_logout :: "server \<Rightarrow> jsstring option \<Rightarrow> reply \<times> server" where
  "post_logout s hdr =
     (case requireAuth s hdr of
        Inl r \<Rightarrow> (r, s)
      | Inr user \<Rightarrow>
          (Reply 200 Ok, s\<lparr>sessions := (case hdr of None \<Rightarrow> sessions s
                                           | Some tok \<Rightarrow> (sessions s)(tok := None))\<rparr>))"

definition advance :: "nat \<Rightarrow> server \<Rightarrow> server" where
  "advance ms s =
     (let t = now s + ms;
          due = filter (\<lambda>(due_at, tok). due_at \<le> t) (timers s)
      in s\<lparr>sessions := (\<lambda>tok. if tok \<in> snd ` set due then None else sessions s tok),
           timers := filter (\<lambda>(due_at, tok). \<not> due_at \<le> t) (timers s),
           now := t\<rparr>)"

text \<open>
  What happens to the store, one thing at a time: a login that draws \<open>tok\<close>, a logout
  request, any other request that passes through \<^verbatim>\<open>requireAuth\<close> (which reads the store
  and leaves it as it is), and the passing of time.
\<close>

datatype action =
    Login token identity
  | Logout "jsstring option"
  | Use "jsstring option"
  | Wait nat

fun step :: "server \<Rightarrow> action \<Rightarrow> server" where
  "step s (Login tok ident) = login_session tok ident s"
| "step s (Logout hdr) = snd (post_logout s hdr)"
| "step s (Use hdr) = s"
| "step s (Wait ms) = advance ms s"

definition run :: "server \<Rightarrow> action list \<Rightarrow> server" where
  "run s acts = foldl step s acts"

definition boot :: server where
  "boot = \<lparr>sessions = Map.empty, timers = [], now = 0\<rparr>"

definition token1 :: token where
  "token1 = js ''0123456789abcdef0123456789abcdef0123456789abcdef0123456789abcdef''"

section \<open>A small database and some requests\<close>

text \<open>
  Concrete inputs on which the theorems below are instantiated: two events, one student
  registered for the first event by the member \<open>asha\<close>, a second member \<open>ravi\<close> and an
  administrator.  \<open>ascii_case\<close> maps the ASCII letters and leaves other code units alone.
\<close>

definition ascii_case :: casemap where
  "ascii_case =
     \<lparr>toLowerCase = map (\<lambda>c. if 0x41 \<le> c \<and> c \<le> 0x5A then c + 0x20 else c),
      toUpperCase = map (\<lambda>c. if 0x61 \<le> c \<and> c \<le> 0x7A then c - 0x20 else c)\<rparr>"

definition event1 :: uuid where "event1 = js ''11111111-1111-4111-8111-111111111111''"
definition event2 :: uuid where "event2 = js ''22222222-2222-4222-8222-222222222222''"
definition event9 :: uuid where "event9 = js ''99999999-9999-4999-8999-999999999999''"
definition student1 :: uuid where "student1 = js ''aaaaaaaa-aaaa-4aaa-8aaa-aaaaaaaaaaaa''"
definition sale1 :: uuid where "sale1 = js ''bbbbbbbb-bbbb-4bbb-8bbb-bbbbbbbbbbbb''"
definition member1 :: uuid where "member1 = js ''cccccccc-cccc-4ccc-8ccc-cccccccccccc''"
definition member2 :: uuid where "member2 = js ''dddddddd-dddd-4ddd-8ddd-dddddddddddd''"
definition member3 :: uuid where "member3 = js ''eeeeeeee-eeee-4eee-8eee-eeeeeeeeeeee''"

definition asha :: identity where
  "asha = \<lparr>u_id = member1, u_name = js ''Asha'', u_email = js ''asha@club.org'', u_role = JStr (js ''member'')\<rparr>"

definition ravi :: identity where
  "ravi = \<lparr>u_id = member2, u_name = js ''Ravi'', u_email = js ''ravi@club.org'', u_role = JStr (js ''member'')\<rparr>"

definition root :: identity where
  "root = \<lparr>u_id = member3, u_name = js ''Root'', u_email = js ''root@club.org'', u_role = admin\<rparr>"

definition ravi_first :: identity_first where
  "ravi_first = \<lparr>sp_id = member2, sp_name = js ''Ravi'', sp_email = js ''ravi@club.org''\<rparr>"

definition fresh_ids :: "nat \<Rightarrow> uuid" where
  "fresh_ids n = js ''ffffffff-ffff-4fff-8fff-ffffffffff'' @ (if n < 10 then js ''0'' else []) @ decimal (int n)"

definition sale1_row :: registration where
  "sale1_row = \<lparr>r_student_id = student1, r_event_id = event1, r_member_id = member1,
                 r_payment_method = js ''cash'', r_transaction_id = None,
                 r_amount_paid = Some 150\<rparr>"

definition shop :: db where
  "shop =
     \<lparr>Events = [(event1, 150), (event2, 200)],
      Students = [(student1, \<lparr>s_student_id = Some (js ''S001''), s_name = js ''A'',
                              s_phone_number = js ''9876543210'', s_email = js ''a@b.com''\<rparr>)],
      Registrations = [(sale1, sale1_row)],
      id_pool = fresh_ids, id_used = 0\<rparr>"

text \<open>
  The request of the spec's example: the student of \<open>shop\<close>, both events, paid in cash.
  The same body serves the single-event handler (\<open>b_event_id\<close> is the second event).
  \<open>edit_request\<close> is an edit of a registration of that student, \<open>walk_in\<close> a request for
  a student not yet known that names the first event and an event that does not exist.
\<close>

definition request :: body where
  "request =
     \<lparr>b_student_id = JStr (js ''s001''), b_name = JStr (js ''A''),
      b_phone = JStr (js ''9876543210''), b_email = JStr (js ''a@b.com''),
      b_event_id = JStr event2, b_event_ids = JList [JStr event1, JStr event2],
      b_payment_method = cash, b_transaction_id = JUndefined, b_other = (\<lambda>k. JUndefined)\<rparr>"

definition edit_request :: body where
  "edit_request = request\<lparr>b_student_id := JStr student1\<rparr>"

definition walk_in :: body where
  "walk_in = request\<lparr>b_student_id := JStr (js ''S777''), b_phone := JStr (js ''9000000001''),
                     b_email := JStr (js ''n@b.com''),
                     b_event_ids := JList [JStr event1, JStr event9]\<rparr>"


section \<open>Properties of the validators\<close>

lemma matches_replicate: "matches (replicate n P) s = (length s = n \<and> list_all P s)"
  by (auto simp: matches_def list_all2_conv_all_nth list_all_length)

lemma length_trim: "length (trim s) \<le> length s"
proof -
  have "length (dropWhile is_space (rev (dropWhile is_space s))) \<le> length (rev (dropWhile is_space s))"
    by (rule length_dropWhile_le)
  also have "\<dots> \<le> length s" by (simp add: length_dropWhile_le)
  finally show ?thesis by (simp add: trim_def)
qed

lemma length_sanitize: "length (sanitize v) \<le> length (ToString v)"
proof -
  have "length (sanitize v) \<le> length (filter (\<lambda>c. \<not> is_markup c) (trim (ToString v)))"
    by (simp add: sanitize_def)
  also have "\<dots> \<le> length (trim (ToString v))" by (rule length_filter_le)
  also have "\<dots> \<le> length (ToString v)" by (rule length_trim)
  finally show ?thesis .
qed

lemma set_trim: "set (trim s) \<subseteq> set s"
  by (auto simp: trim_def dest!: set_dropWhileD)

lemma sanitize_no_markup: "c \<in> set (sanitize v) \<Longrightarrow> \<not> is_markup c"
  by (auto simp: sanitize_def dest: in_set_takeD)

lemma length_sanitize_500: "length (sanitize v) \<le> 500"
  by (simp add: sanitize_def)

text \<open>On text without markup characters and within the limit, \<open>sanitize\<close> only trims.\<close>

lemma sanitize_clean:
  assumes "\<forall>c\<in>set s. \<not> is_markup c" and "length s \<le> 500"
  shows "sanitize (JStr s) = trim s"
proof -
  have "\<forall>c\<in>set (trim s). \<not> is_markup c" using assms(1) set_trim by blast
  then have "filter (\<lambda>c. \<not> is_markup c) (trim s) = trim s" by (simp add: filter_id_conv)
  moreover have "length (trim s) \<le> 500" using length_trim [of s] assms(2) by linarith
  ultimately show ?thesis by (simp add: sanitize_def)
qed

lemma dropWhile_fix: "xs = [] \<or> \<not> P (hd xs) \<Longrightarrow> dropWhile P xs = xs"
  by (cases xs) auto

lemma dropWhile_head: "dropWhile P xs = [] \<or> \<not> P (hd (dropWhile P xs))"
  using hd_dropWhile by blast

lemma trim_trim: "trim (trim s) = trim s"
proof -
  define a where "a = dropWhile is_space s"
  define b where "b = dropWhile is_space (rev a)"
  have t: "trim s = rev b" by (simp add: trim_def a_def b_def)
  have b_fix: "dropWhile is_space b = b"
    unfolding b_def by (rule dropWhile_idem)
  have "dropWhile is_space (rev b) = rev b"
  proof (cases "b = []")
    case True then show ?thesis by simp
  next
    case False
    have a_head: "a = [] \<or> \<not> is_space (hd a)" unfolding a_def by (rule dropWhile_head)
    obtain p where p: "rev a = p @ b" unfolding b_def
      by (metis takeWhile_dropWhile_id)
    then have "a = rev b @ rev p" by (metis rev_append rev_rev_ident)
    with False have "hd (rev b) = hd a" by simp
    moreover have "a \<noteq> []" using False p by auto
    ultimately have "\<not> is_space (hd (rev b))" using a_head by simp
    then show ?thesis by (simp add: dropWhile_fix)
  qed
  then have "trim (rev b) = rev b" by (simp add: trim_def b_fix)
  then show ?thesis by (simp add: t)
qed

lemma sanitize_again: "sanitize (JStr (sanitize v)) = trim (sanitize v)"
  by (rule sanitize_clean) (auto simp: sanitize_no_markup length_sanitize_500)

lemma sanitize_thrice: "sanitize (JStr (sanitize (JStr (sanitize v)))) = sanitize (JStr (sanitize v))"
proof -
  have "sanitize (JStr (trim (sanitize v))) = trim (trim (sanitize v))"
  proof (rule sanitize_clean)
    show "\<forall>c\<in>set (trim (sanitize v)). \<not> is_markup c"
      using set_trim sanitize_no_markup by blast
    show "length (trim (sanitize v)) \<le> 500"
      using length_trim [of "sanitize v"] length_sanitize_500 [of v] by linarith
  qed
  then show ?thesis by (simp add: sanitize_again trim_trim)
qed

text \<open>
  Claim C7, as the code has it.  \<open>sanitize\<close> trims before it removes the markup characters
  and cuts at 500 code units, so its result can begin or end with whitespace that a
  second application trims away: \<open>sanitize\<close> is not idempotent.  For every string \<open>x\<close>:
  the length of \<open>sanitize x\<close> never exceeds the length of \<open>x\<close>; a second application only
  trims, \<open>sanitize (sanitize x) = trim (sanitize x)\<close>; and from the second application on
  nothing changes, \<open>sanitize (sanitize (sanitize x)) = sanitize (sanitize x)\<close>.
\<close>

theorem sanitize_settles:
  "length (sanitize (JStr x)) \<le> length x
   \<and> sanitize (JStr (sanitize (JStr x))) = trim (sanitize (JStr x))
   \<and> sanitize (JStr (sanitize (JStr (sanitize (JStr x))))) = sanitize (JStr (sanitize (JStr x)))"
  using length_sanitize [of "JStr x"] sanitize_again [of "JStr x"] sanitize_thrice [of "JStr x"]
  by simp

text \<open>
  Claim C7 on the three code units \<open><\<close>, space, \<open>a\<close>: the result is no longer than the
  input, and the second application trims it to \<open>a\<close>.
\<close>

theorem sanitize_settles_witness:
  "length (sanitize (JStr (js ''< a''))) \<le> length (js ''< a'')
   \<and> sanitize (JStr (sanitize (JStr (js ''< a'')))) = js ''a''"
proof -
  have "trim (sanitize (JStr (js ''< a''))) = js ''a''" by code_simp
  then show ?thesis using sanitize_settles [of "js ''< a''"] by simp
qed

text \<open>
  Claim C7 as stated fails: on the three code units \<open><\<close>, space, \<open>a\<close> the first application
  gives space, \<open>a\<close> and the second gives \<open>a\<close>.
\<close>

theorem sanitize_not_idempotent:
  "sanitize (JStr (sanitize (JStr (js ''< a'')))) \<noteq> sanitize (JStr (js ''< a''))"
  by code_simp

lemma isEmail_iff:
  "isEmail v = (typeof v = ''string'' \<and> 0x40 \<in> set (ToString v) \<and> length (ToString v) \<le> 254)"
  by (cases v) (simp_all add: isEmail_def)

text \<open>
  Claim C9, as the code has it.  \<open>isPhone\<close> tests the text \<^verbatim>\<open>String(v)\<close> of its argument:
  it is true exactly when that text is ten decimal digits, so for a string \<open>s\<close> exactly
  when \<open>s\<close> is ten decimal digits.  \<open>isEmail v\<close> is true exactly when \<open>v\<close> is a string that
  contains \<open>@\<close> and has at most 254 code units.  Both are total functions into \<open>bool\<close>.
\<close>

theorem validators_exact:
  "isPhone v = (length (ToString v) = 10 \<and> list_all is_digit (ToString v))
   \<and> isPhone (JStr s) = (length s = 10 \<and> list_all is_digit s)
   \<and> isEmail v = (typeof v = ''string'' \<and> 0x40 \<in> set (ToString v) \<and> length (ToString v) \<le> 254)"
  by (simp add: isPhone_def matches_replicate isEmail_iff)

text \<open>
  Claim C9 on a ten-digit string, a five-digit string and a short address.
\<close>

theorem validators_exact_witness:
  "isPhone (JStr (js ''9876543210'')) \<and> \<not> isPhone (JStr (js ''98765'')) \<and> isEmail (JStr (js ''a@b.com''))"
proof -
  have "length (js ''9876543210'') = 10 \<and> list_all is_digit (js ''9876543210'')" by code_simp
  moreover have "length (js ''98765'') \<noteq> 10" by code_simp
  moreover have "0x40 \<in> set (js ''a@b.com'') \<and> length (js ''a@b.com'') \<le> 254" by code_simp
  ultimately show ?thesis
    using validators_exact [of "JStr (js ''a@b.com'')" "js ''9876543210''"]
      validators_exact [of "JStr (js ''a@b.com'')" "js ''98765''"]
    by simp
qed

text \<open>
  Claim C9 as stated fails for \<open>isPhone\<close>: the number 1234567890 is not a string, and
  \<open>isPhone\<close> accepts it.
\<close>

theorem isPhone_accepts_number:
  "isPhone (JNum 1234567890) \<and> typeof (JNum 1234567890) \<noteq> ''string''"
  by code_simp

section \<open>Properties of the gateway and of the handlers\<close>

lemma cash_not_upi: "cash \<noteq> upi"
  by (simp add: cash_def upi_def js_def)

lemma students_update_tables:
  "students_update d i f = Inr d' \<Longrightarrow>
     Registrations d' = Registrations d \<and> Events d' = Events d
     \<and> id_pool d' = id_pool d \<and> id_used d' = id_used d"
  by (auto simp: students_update_def split: if_splits)

lemma students_insert_tables:
  "students_insert d s = Inr (d', row) \<Longrightarrow>
     Registrations d' = Registrations d \<and> Events d' = Events d \<and> id_pool d' = id_pool d"
  by (auto simp: students_insert_def Let_def split: if_splits)

lemma upsert_by_phone_Inr:
  assumes "upsert_by_phone cm d b = Inr (sid, d1)"
  shows "Registrations d1 = Registrations d \<and> Events d1 = Events d \<and> id_pool d1 = id_pool d"
  using assms
  by (auto simp: upsert_by_phone_def Let_def
      split: option.splits sum.splits prod.splits
      dest!: students_update_tables students_insert_tables)

lemma upsert_by_phone_Inl:
  "upsert_by_phone cm d b = Inl (r, d') \<Longrightarrow> d' = d \<and> status r \<in> {400, 500}"
  by (auto simp: upsert_by_phone_def Let_def split: option.splits sum.splits prod.splits if_splits)

lemma upsert_by_student_id_Inr:
  assumes "upsert_by_student_id cm d b = Inr (sid, d1)"
  shows "Registrations d1 = Registrations d \<and> Events d1 = Events d \<and> id_pool d1 = id_pool d"
  using assms
  by (auto simp: upsert_by_student_id_def Let_def
      split: option.splits sum.splits prod.splits
      dest!: students_update_tables students_insert_tables)

lemma upsert_by_student_id_Inl:
  "upsert_by_student_id cm d b = Inl (r, d') \<Longrightarrow> d' = d \<and> status r \<in> {400, 500}"
  by (auto simp: upsert_by_student_id_def Let_def split: option.splits sum.splits prod.splits if_splits)

lemma registrations_insert_Inr:
  "registrations_insert d rows = Inr d' \<Longrightarrow>
     Registrations d' = Registrations d @ zip (map (id_pool d) [id_used d ..< id_used d + length rows]) rows
     \<and> Events d' = Events d \<and> Students d' = Students d"
  by (auto simp: registrations_insert_def split: if_splits)

lemma register_checks_400: "register_checks b = Some r \<Longrightarrow> status r = 400"
  by (auto simp: register_checks_def split: if_splits)

text \<open>What a successful run of the single-event handler has written.\<close>

lemma post_register_ok:
  assumes "post_register cm d user b = (Reply 200 Ok, d')"
  shows "\<exists>sid d1 cost.
           single (events_eq_id d (ToString (b_event_id b))) = Inr (ToString (b_event_id b), cost)
         \<and> upsert_by_phone cm d b = Inr (sid, d1)
         \<and> register_checks b = None
         \<and> Events d' = Events d \<and> Students d' = Students d1
         \<and> Registrations d' = Registrations d @
             [(id_pool d1 (id_used d1),
               \<lparr>r_student_id = sid, r_event_id = ToString (b_event_id b), r_member_id = u_id user,
                r_payment_method = ToString (b_payment_method b),
                r_transaction_id = txn_column b, r_amount_paid = Some cost\<rparr>)]"
proof -
  from assms have chk: "register_checks b = None"
    by (auto simp: post_register_def split: option.splits dest: register_checks_400)
  from assms chk obtain eid cost where
    ev: "single (events_eq_id d (ToString (b_event_id b))) = Inr (eid, cost)"
    by (auto simp: post_register_def split: sum.splits)
  then have eid: "eid = ToString (b_event_id b)"
    by (auto simp: single_def events_eq_id_def filter_eq_Cons_iff split: list.splits)
  from assms chk ev obtain sid d1 where
    up: "upsert_by_phone cm d b = Inr (sid, d1)"
    by (auto simp: post_register_def split: sum.splits dest: upsert_by_phone_Inl)
  let ?row = "\<lparr>r_student_id = sid, r_event_id = ToString (b_event_id b), r_member_id = u_id user,
                r_payment_method = ToString (b_payment_method b),
                r_transaction_id = txn_column b, r_amount_paid = Some cost\<rparr>"
  from assms chk ev up have ins: "registrations_insert d1 [?row] = Inr d'"
    by (auto simp: post_register_def split: sum.splits if_splits)
  from registrations_insert_Inr [OF ins] upsert_by_phone_Inr [OF up]
  show ?thesis using ev eid up chk by (simp add: upt_rec)
qed

lemma filter_single_map_of:
  "filter (\<lambda>(j, c). j = i) xs = [(j, c)] \<Longrightarrow> map_of xs i = Some c"
  by (induction xs) (auto split: if_splits)

lemma single_map_of:
  "single (events_eq_id d i) = Inr (j, c) \<Longrightarrow> map_of (Events d) i = Some c"
  by (rule filter_single_map_of [of i _ j])
     (auto simp: single_def events_eq_id_def split: list.splits)

lemma digit_word: "0 \<le> k \<Longrightarrow> k < 10 \<Longrightarrow> is_digit (of_int (48 + k))"
proof -
  assume "0 \<le> k" "k < 10"
  then have "k = 0 \<or> k = 1 \<or> k = 2 \<or> k = 3 \<or> k = 4 \<or> k = 5 \<or> k = 6 \<or> k = 7 \<or> k = 8 \<or> k = 9"
    by arith
  then show ?thesis by (elim disjE) (simp_all add: is_digit_def)
qed

lemma digit_word': "0 \<le> k \<Longrightarrow> k < 10 \<Longrightarrow> is_digit (48 + word_of_int k)"
  using digit_word [of k] by simp

lemma decimal_digits: "0 \<le> n \<Longrightarrow> list_all is_digit (decimal n)"
proof (induction n rule: decimal.induct)
  case (1 n)
  show ?case
  proof (cases "n < 10")
    case True
    with "1.prems" show ?thesis by (subst decimal.simps) (simp add: digit_word')
  next
    case False
    then have "0 \<le> n div 10" by simp
    with "1.IH" False have "list_all is_digit (decimal (n div 10))" by simp
    moreover have "is_digit (48 + word_of_int (n mod 10))" by (rule digit_word') simp_all
    ultimately show ?thesis using False by (subst decimal.simps) simp
  qed
qed

lemma uuid_shape:
  assumes "matches uuid_pattern s"
  shows "length s = 36 \<and> is_hex (s ! 0) \<and> s ! 8 = 0x2D"
proof -
  from assms have len: "length s = 36"
    by (simp add: matches_def uuid_pattern_def list_all2_conv_all_nth)
  from assms have all: "\<forall>i<36. (uuid_pattern ! i) (s ! i)"
    by (simp add: matches_def uuid_pattern_def list_all2_conv_all_nth)
  have "uuid_pattern ! 0 = is_hex" "uuid_pattern ! 8 = is_hyphen"
    by (simp_all add: uuid_pattern_def nth_append)
  moreover from all have "(uuid_pattern ! 0) (s ! 0)" "(uuid_pattern ! 8) (s ! 8)" by simp_all
  ultimately have "is_hex (s ! 0)" "is_hyphen (s ! 8)" by simp_all
  with len show ?thesis by (simp add: is_hyphen_def)
qed

lemma not_hex_hyphen: "\<not> is_hex 0x2D" "\<not> is_digit 0x2D"
  by (simp_all add: is_hex_def is_digit_def)

lemma isUUID_JStr: "isUUID v \<Longrightarrow> v = JStr (ToString v)"
proof (cases v)
  case JUndefined
  assume "isUUID v" with JUndefined show ?thesis
    by (auto simp: isUUID_def js_def dest!: uuid_shape)
next
  case JNull
  assume "isUUID v" with JNull show ?thesis
    by (auto simp: isUUID_def js_def dest!: uuid_shape)
next
  case (JBool x)
  assume "isUUID v" with JBool show ?thesis
    by (auto simp: isUUID_def js_def dest!: uuid_shape split: if_splits)
next
  case (JNum n)
  assume u: "isUUID v"
  show ?thesis
  proof (cases "n < 0")
    case True
    with u JNum have "is_hex (0x2D)" by (auto simp: isUUID_def js_def dest!: uuid_shape)
    then show ?thesis by (simp add: not_hex_hyphen)
  next
    case False
    then have d: "list_all is_digit (decimal n)" by (simp add: decimal_digits)
    from u JNum False have "length (decimal n) = 36" "decimal n ! 8 = 0x2D"
      by (auto simp: isUUID_def dest!: uuid_shape)
    moreover from d have "\<forall>i<length (decimal n). is_digit (decimal n ! i)"
      by (simp add: list_all_length)
    ultimately have "8 < length (decimal n) \<longrightarrow> is_digit (decimal n ! 8)" "length (decimal n) = 36"
      "decimal n ! 8 = 0x2D" by blast+
    then have "is_digit 0x2D" by simp
    then show ?thesis by (simp add: not_hex_hyphen)
  qed
next
  case (JStr s)
  then show ?thesis by simp
qed

lemma batch_checks_elements:
  assumes "batch_checks b = None"
  shows "elements (b_event_ids b) \<noteq> [] \<and> (\<forall>v \<in> set (elements (b_event_ids b)). v = JStr (ToString v))"
proof -
  from assms have l: "length_of (b_event_ids b) \<notin> {None, Some 0}"
    and u: "\<not> (case b_event_ids b of JList ids \<Rightarrow> \<exists>v \<in> set ids. \<not> isUUID v | JScalar v \<Rightarrow> True)"
    by (simp_all add: batch_checks_def split: if_splits)
  from u obtain ids where ids: "b_event_ids b = JList ids" "\<forall>v \<in> set ids. isUUID v"
    by (cases "b_event_ids b") auto
  with l show ?thesis by (auto simp: elements_def length_of_def dest: isUUID_JStr)
qed

lemma set_alreadyRegistered:
  "set (alreadyRegistered d sid ids) =
     {s \<in> ToString ` set ids. (sid, s) \<in> set (map (pair_of \<circ> snd) (Registrations d))}"
  by (force simp: alreadyRegistered_def registrations_of_def pair_of_def image_iff)

lemma has_alreadyRegistered:
  assumes "e \<in> set ids" and "e = JStr (ToString e)"
  shows "has (alreadyRegistered d sid ids) e
           = ((sid, ToString e) \<in> set (map (pair_of \<circ> snd) (Registrations d)))"
proof -
  have "has (alreadyRegistered d sid ids) (JStr (ToString e))
          = (ToString e \<in> set (alreadyRegistered d sid ids))"
    by (simp add: has_def)
  also have "\<dots> = ((sid, ToString e) \<in> set (map (pair_of \<circ> snd) (Registrations d)))"
    using assms(1) by (simp add: set_alreadyRegistered)
  finally show ?thesis using assms(2) by simp
qed

lemma newEventIds_filter:
  assumes "\<forall>v \<in> set ids. v = JStr (ToString v)"
  shows "newEventIds d sid ids
           = filter (\<lambda>e. (sid, ToString e) \<notin> set (map (pair_of \<circ> snd) (Registrations d))) ids"
  unfolding newEventIds_def
  by (rule filter_cong [OF refl]) (use assms in \<open>simp add: has_alreadyRegistered\<close>)

lemma ToString_inj:
  assumes "\<forall>v \<in> set ids. v = JStr (ToString v)"
  shows "inj_on ToString (set ids)"
  by (rule inj_onI) (metis assms)

lemma length_alreadyRegistered:
  assumes strs: "\<forall>v \<in> set ids. v = JStr (ToString v)" and dist: "distinct ids"
  shows "length (alreadyRegistered d sid ids)
           = length (filter (\<lambda>e. (sid, ToString e) \<in> set (map (pair_of \<circ> snd) (Registrations d))) ids)"
proof -
  let ?P = "\<lambda>e. (sid, ToString e) \<in> set (map (pair_of \<circ> snd) (Registrations d))"
  have "distinct (alreadyRegistered d sid ids)" by (simp add: alreadyRegistered_def)
  then have "length (alreadyRegistered d sid ids) = card (set (alreadyRegistered d sid ids))"
    by (simp add: distinct_card)
  also have "set (alreadyRegistered d sid ids) = ToString ` set (filter ?P ids)"
    by (auto simp: set_alreadyRegistered)
  also have "card (ToString ` set (filter ?P ids)) = card (set (filter ?P ids))"
    by (rule card_image) (rule inj_on_subset [OF ToString_inj [OF strs]], simp)
  also have "\<dots> = length (filter ?P ids)"
    by (rule distinct_card) (simp add: dist)
  finally show ?thesis .
qed

lemma map_pair_registrations_for:
  "map pair_of (registrations_for ev sid user b xs) = map (\<lambda>e. (sid, ToString e)) xs"
  by (simp add: registrations_for_def pair_of_def Let_def comp_def)

lemma length_registrations_for: "length (registrations_for ev sid user b xs) = length xs"
  by (simp add: registrations_for_def Let_def)

lemma batch_insert_ok:
  assumes strs: "\<forall>v \<in> set ids. v = JStr (ToString v)" and dist: "distinct ids"
  shows "\<exists>d2. registrations_insert d1 (registrations_for ev sid user b (newEventIds d1 sid ids)) = Inr d2"
proof -
  let ?new = "newEventIds d1 sid ids"
  have new: "?new = filter (\<lambda>e. (sid, ToString e) \<notin> set (map (pair_of \<circ> snd) (Registrations d1))) ids"
    by (rule newEventIds_filter [OF strs])
  have "distinct ?new" using dist by (simp add: newEventIds_def)
  moreover have "inj_on ToString (set ?new)"
    by (rule inj_on_subset [OF ToString_inj [OF strs]]) (simp add: newEventIds_def)
  ultimately have "distinct (map ToString ?new)" by (simp add: distinct_map)
  then have "distinct (map (\<lambda>e. (sid, ToString e)) ?new)"
    by (simp add: distinct_map inj_on_def)
  then have d: "distinct (map pair_of (registrations_for ev sid user b ?new))"
    by (simp only: map_pair_registrations_for)
  have "\<forall>p \<in> set (map pair_of (registrations_for ev sid user b ?new)).
          p \<notin> set (map (pair_of \<circ> snd) (Registrations d1))"
    unfolding map_pair_registrations_for by (subst new) auto
  then have "\<forall>r \<in> set (registrations_for ev sid user b ?new).
          pair_of r \<notin> set (map (pair_of \<circ> snd) (Registrations d1))"
    by simp
  with d show ?thesis by (simp add: registrations_insert_def)
qed

lemma batch_checks_400: "batch_checks b = Some r \<Longrightarrow> status r = 400"
  by (auto simp: batch_checks_def split: if_splits)

lemma map_of_filter_keys:
  "map_of (filter (\<lambda>(j, c). j \<in> S) xs) k = (if k \<in> S then map_of xs k else None)"
  by (induction xs) auto

lemma map_of_rev_distinct: "distinct (map fst xs) \<Longrightarrow> map_of (rev xs) = map_of xs"
  by (rule ext) (metis distinct_rev map_of_eq_Some_iff not_None_eq rev_map set_rev map_of_eq_None_iff)

lemma amount_registrations_for:
  assumes "distinct (map fst (Events d))"
    and "r \<in> set (registrations_for (events_in_id d (map ToString ids)) sid user b new)"
    and "set new \<subseteq> set ids"
  shows "r_amount_paid r = map_of (Events d) (r_event_id r)"
proof -
  have "distinct (map fst (events_in_id d (map ToString ids)))"
    using assms(1) by (simp add: events_in_id_def distinct_map_filter)
  then have "map_of (rev (events_in_id d (map ToString ids))) = map_of (events_in_id d (map ToString ids))"
    by (rule map_of_rev_distinct)
  moreover from assms(2) obtain e where "e \<in> set new"
    "r_event_id r = ToString e"
    "r_amount_paid r = map_of (rev (events_in_id d (map ToString ids))) (ToString e)"
    by (auto simp: registrations_for_def Let_def)
  moreover have "ToString e \<in> set (map ToString ids)" using \<open>e \<in> set new\<close> assms(3) by auto
  ultimately show ?thesis by (simp add: events_in_id_def map_of_filter_keys)
qed

lemma other_fields_unread:
  "register_checks (b\<lparr>b_other := x\<rparr>) = register_checks b"
  "batch_checks (b\<lparr>b_other := x\<rparr>) = batch_checks b"
  "txn_column (b\<lparr>b_other := x\<rparr>) = txn_column b"
  "upsert_by_phone cm d (b\<lparr>b_other := x\<rparr>) = upsert_by_phone cm d b"
  "upsert_by_student_id cm d (b\<lparr>b_other := x\<rparr>) = upsert_by_student_id cm d b"
  "registrations_for ev sid user (b\<lparr>b_other := x\<rparr>) ids = registrations_for ev sid user b ids"
  by (simp_all add: register_checks_def batch_checks_def txn_column_def cleanTxn_def
      upsert_by_phone_def upsert_by_student_id_def registrations_for_def Let_def
      cong: option.case_cong sum.case_cong)

text \<open>What a successful run of the batch handler, alone, has written.\<close>

lemma post_register_batch_ok:
  assumes "post_register_batch cm d user b = (Reply 200 (OkCount n k), d')"
  shows "\<exists>sid d1 new.
           batch_checks b = None
         \<and> upsert_by_student_id cm d b = Inr (sid, d1)
         \<and> new = newEventIds d1 sid (elements (b_event_ids b))
         \<and> n = length new \<and> k = length (alreadyRegistered d1 sid (elements (b_event_ids b)))
         \<and> Events d' = Events d \<and> Students d' = Students d1
         \<and> Registrations d' = Registrations d @
              zip (map (id_pool d1) [id_used d1 ..< id_used d1 + length new])
                  (registrations_for (events_in_id d (map ToString (elements (b_event_ids b)))) sid user b new)"
proof -
  let ?ids = "elements (b_event_ids b)"
  let ?ev = "events_in_id d (map ToString ?ids)"
  from assms have chk: "batch_checks b = None"
    by (auto simp: post_register_batch_def post_register_batch_with_def
        split: option.splits dest: batch_checks_400)
  with assms have ev: "?ev \<noteq> []"
    by (auto simp: post_register_batch_def post_register_batch_with_def Let_def split: if_splits)
  with assms chk obtain sid d1 where up: "upsert_by_student_id cm d b = Inr (sid, d1)"
    by (auto simp: post_register_batch_def post_register_batch_with_def Let_def
        split: sum.splits dest: upsert_by_student_id_Inl)
  let ?new = "newEventIds d1 sid ?ids"
  let ?rows = "registrations_for ?ev sid user b ?new"
  from assms chk ev up have new: "?new \<noteq> []"
    by (auto simp: post_register_batch_def post_register_batch_with_def Let_def split: if_splits)
  with assms chk ev up have ins: "registrations_insert d1 ?rows = Inr d'"
    and nk: "n = length ?rows" "k = length (alreadyRegistered d1 sid ?ids)"
    by (auto simp: post_register_batch_def post_register_batch_with_def Let_def split: sum.splits)
  from registrations_insert_Inr [OF ins] upsert_by_student_id_Inr [OF up] chk up nk
  show ?thesis by (simp add: length_registrations_for)
qed

lemma put_checks_400: "put_checks sale_id b = Some r \<Longrightarrow> status r = 400"
  by (auto simp: put_checks_def split: if_splits)

lemma put_checks_first_400: "put_checks_first sale_id b = Some r \<Longrightarrow> status r = 400"
  by (auto simp: put_checks_first_def split: if_splits)

lemma put_sales_refuses:
  assumes "single (registrations_eq_id d sale_id) = Inr (rid, reg)"
    and "u_role user \<noteq> admin" and "u_id user \<noteq> r_member_id reg"
  shows "put_sales cm d user sale_id b =
           (case put_checks sale_id b of Some r \<Rightarrow> r | None \<Rightarrow> Reply 403 (Error ''Not authorized.''), d)"
  using assms by (simp add: put_sales_def data_def split: option.splits)

lemma put_sales_permits:
  assumes "single (registrations_eq_id d sale_id) = Inr (rid, reg)"
    and "u_role user = admin \<or> u_id user = r_member_id reg"
    and "put_checks sale_id b = None"
  shows "status (fst (put_sales cm d user sale_id b)) \<in> {200, 400, 500}"
  using assms
  by (auto simp: put_sales_def data_def Let_def split: option.splits sum.splits)

lemma delete_sales_refuses:
  assumes "single (registrations_eq_id d sale_id) = Inr (rid, reg)"
    and "u_role user \<noteq> admin" and "u_id user \<noteq> r_member_id reg"
  shows "delete_sales d user sale_id =
           (if isUUID (JStr sale_id) then Reply 403 (Error ''Not authorized.'')
            else Reply 400 (Error ''Invalid ID.''), d)"
  using assms by (simp add: delete_sales_def data_def)

lemma delete_sales_permits:
  assumes "single (registrations_eq_id d sale_id) = Inr (rid, reg)"
    and "u_role user = admin \<or> u_id user = r_member_id reg"
    and "isUUID (JStr sale_id)"
  shows "delete_sales d user sale_id
           = (Reply 200 Ok, d\<lparr>Registrations := filter (\<lambda>(j, r). j \<noteq> sale_id) (Registrations d)\<rparr>)"
  using assms by (auto simp: delete_sales_def data_def registrations_delete_def)

lemma put_sales_first_refuses:
  assumes "single (registrations_eq_id d sale_id) = Inr (rid, reg)"
    and "sp_id sp \<noteq> r_member_id reg"
  shows "put_sales_first cm d sp sale_id b =
           (case put_checks_first sale_id b of Some r \<Rightarrow> r | None \<Rightarrow> Reply 403 (Error ''Not authorized.''), d)"
  using assms by (simp add: put_sales_first_def data_def split: option.splits)

lemma put_sales_first_permits:
  assumes "single (registrations_eq_id d sale_id) = Inr (rid, reg)"
    and "sp_id sp = r_member_id reg"
    and "put_checks_first sale_id b = None"
  shows "status (fst (put_sales_first cm d sp sale_id b)) \<in> {200, 400, 500}"
  using assms
  by (auto simp: put_sales_first_def data_def Let_def split: option.splits sum.splits)

lemma registrations_update_Inr:
  "registrations_update d i f = Inr d' \<Longrightarrow>
     Registrations d' = map (\<lambda>(j, r). if j = i then (j, f r) else (j, r)) (Registrations d)"
  by (auto simp: registrations_update_def split: if_splits)

text \<open>What a successful edit has written.\<close>

lemma put_sales_ok:
  assumes "put_sales cm d user sale_id b = (Reply 200 Ok, d')"
  shows "\<exists>cost. Registrations d' =
           map (\<lambda>(j, r). if j = sale_id
                  then (j, r\<lparr>r_event_id := ToString (b_event_id b),
                              r_payment_method := ToString (b_payment_method b),
                              r_transaction_id := txn_column b, r_amount_paid := Some cost\<rparr>)
                  else (j, r)) (Registrations d)"
proof -
  let ?upd = "\<lambda>cost r. r\<lparr>r_event_id := ToString (b_event_id b),
                              r_payment_method := ToString (b_payment_method b),
                              r_transaction_id := txn_column b, r_amount_paid := Some cost\<rparr>"
  from assms have chk: "put_checks sale_id b = None"
    by (auto simp: put_sales_def split: option.splits dest: put_checks_400)
  from assms chk obtain d1 cost where
    d1: "Registrations d1 = Registrations d"
    and upd: "registrations_update d1 sale_id (?upd cost) = Inr d'"
    by (auto simp: put_sales_def Let_def
        split: option.splits sum.splits if_splits prod.splits dest: students_update_tables)
  from registrations_update_Inr [OF upd] d1 show ?thesis by auto
qed

lemma txn_column_rule:
  "(b_payment_method b = cash \<longrightarrow> txn_column b = None)
   \<and> (txn_column b \<noteq> None \<longrightarrow> b_payment_method b = upi)"
  using cash_not_upi by (auto simp: txn_column_def)


section \<open>The claims about the registration handlers\<close>

text \<open>
  Claim C1.  A registration written by \<^verbatim>\<open>POST /api/register\<close> carries the cost that the
  table \<open>Events\<close> holds for its event, and no field of the body other than those the
  handler destructures has any influence.  For the single-event handler of
  \<^verbatim>\<open>server.js\<close>: a successful run appends one row, for the requested event, whose
  \<open>r_amount_paid\<close> is that event's stored cost, and \<open>Events\<close> is untouched.  For the batch
  handler, where the primary key of \<open>Events\<close> is unique: every row appended carries the
  stored cost of its event.  Changing \<open>b_other\<close> (an \<^verbatim>\<open>amount\<close> sent by the client, say)
  changes neither reply nor database.
\<close>

theorem amount_paid_is_event_cost:
  "(post_register cm d user b = (Reply 200 Ok, d') \<longrightarrow>
      (\<exists>i r. Registrations d' = Registrations d @ [(i, r)] \<and> Events d' = Events d
         \<and> r_event_id r = ToString (b_event_id b)
         \<and> r_amount_paid r \<noteq> None
         \<and> r_amount_paid r = map_of (Events d) (r_event_id r)))
   \<and> post_register cm d user (b\<lparr>b_other := x\<rparr>) = post_register cm d user b
   \<and> (distinct (map fst (Events d))
        \<and> post_register_batch cm d user b = (Reply 200 (OkCount n k), d') \<longrightarrow>
      (\<exists>rows. Registrations d' = Registrations d @ rows \<and> Events d' = Events d \<and> length rows = n
         \<and> (\<forall>(i, r) \<in> set rows. r_amount_paid r = map_of (Events d) (r_event_id r))))
   \<and> post_register_batch cm d user (b\<lparr>b_other := x\<rparr>) = post_register_batch cm d user b"
proof (intro conjI impI)
  assume "post_register cm d user b = (Reply 200 Ok, d')"
  from post_register_ok [OF this] single_map_of
  show "\<exists>i r. Registrations d' = Registrations d @ [(i, r)] \<and> Events d' = Events d
         \<and> r_event_id r = ToString (b_event_id b)
         \<and> r_amount_paid r \<noteq> None
         \<and> r_amount_paid r = map_of (Events d) (r_event_id r)"
    by fastforce
next
  show "post_register cm d user (b\<lparr>b_other := x\<rparr>) = post_register cm d user b"
    by (simp add: post_register_def other_fields_unread
        cong: option.case_cong sum.case_cong prod.case_cong)
next
  assume a: "distinct (map fst (Events d)) \<and> post_register_batch cm d user b = (Reply 200 (OkCount n k), d')"
  let ?ids = "elements (b_event_ids b)"
  from post_register_batch_ok [of cm d user b n k d'] a obtain sid d1 where
    n: "n = length (newEventIds d1 sid ?ids)" and ev: "Events d' = Events d"
    and regs: "Registrations d' = Registrations d @
              zip (map (id_pool d1) [id_used d1 ..< id_used d1 + length (newEventIds d1 sid ?ids)])
                  (registrations_for (events_in_id d (map ToString ?ids)) sid user b (newEventIds d1 sid ?ids))"
    by auto
  let ?rows = "zip (map (id_pool d1) [id_used d1 ..< id_used d1 + length (newEventIds d1 sid ?ids)])
                  (registrations_for (events_in_id d (map ToString ?ids)) sid user b (newEventIds d1 sid ?ids))"
  have "\<forall>(i, r) \<in> set ?rows. r_amount_paid r = map_of (Events d) (r_event_id r)"
  proof (clarify)
    fix i r assume "(i, r) \<in> set ?rows"
    then have "r \<in> set (registrations_for (events_in_id d (map ToString ?ids)) sid user b (newEventIds d1 sid ?ids))"
      by (rule set_zip_rightD)
    then show "r_amount_paid r = map_of (Events d) (r_event_id r)"
      by (rule amount_registrations_for [OF conjunct1 [OF a]]) (simp add: newEventIds_def)
  qed
  moreover have "length ?rows = n" by (simp add: n length_registrations_for)
  ultimately show "\<exists>rows. Registrations d' = Registrations d @ rows \<and> Events d' = Events d \<and> length rows = n
         \<and> (\<forall>(i, r) \<in> set rows. r_amount_paid r = map_of (Events d) (r_event_id r))"
    using regs ev by blast
next
  show "post_register_batch cm d user (b\<lparr>b_other := x\<rparr>) = post_register_batch cm d user b"
    by (simp add: post_register_batch_def post_register_batch_with_def other_fields_unread Let_def
        cong: option.case_cong sum.case_cong prod.case_cong if_cong)
qed

text \<open>
  Claim C1 on the request of the spec's example, with every unread field of the body
  set to the number 1: the new row is priced 200, the stored cost of the second event.
\<close>

theorem amount_paid_is_event_cost_witness:
  "map (\<lambda>(i, r). r_amount_paid r)
     (Registrations (snd (post_register ascii_case shop asha (request\<lparr>b_other := (\<lambda>k. JNum 1)\<rparr>))))
     = [Some 150, Some 200]
   \<and> map (\<lambda>(i, r). r_amount_paid r)
     (Registrations (snd (post_register_batch ascii_case shop asha (request\<lparr>b_other := (\<lambda>k. JNum 1)\<rparr>))))
     = [Some 150, Some 200]"
proof -
  let ?d1 = "snd (post_register ascii_case shop asha request)"
  let ?d2 = "snd (post_register_batch ascii_case shop asha request)"
  have "fst (post_register ascii_case shop asha request) = Reply 200 Ok" by code_simp
  then have r1: "post_register ascii_case shop asha request = (Reply 200 Ok, ?d1)"
    by (metis prod.collapse)
  have "fst (post_register_batch ascii_case shop asha request) = Reply 200 (OkCount 1 1)" by code_simp
  then have r2: "post_register_batch ascii_case shop asha request = (Reply 200 (OkCount 1 1), ?d2)"
    by (metis prod.collapse)
  have keys: "distinct (map fst (Events shop))" by code_simp
  have old: "map (\<lambda>(i, r). r_amount_paid r) (Registrations shop) = [Some 150]" by code_simp
  have price: "map_of (Events shop) (ToString (b_event_id request)) = Some 200" by code_simp
  note single = amount_paid_is_event_cost [of ascii_case shop asha request ?d1 "\<lambda>k. JNum 1" 1 1]
  note batch = amount_paid_is_event_cost [of ascii_case shop asha request ?d2 "\<lambda>k. JNum 1" 1 1]
  from single r1 obtain i r where
    s: "Registrations ?d1 = Registrations shop @ [(i, r)]" "r_event_id r = ToString (b_event_id request)"
       "r_amount_paid r = map_of (Events shop) (r_event_id r)"
    by blast
  from batch r2 keys obtain rows where
    b: "Registrations ?d2 = Registrations shop @ rows" "length rows = 1"
       "\<forall>(i, r) \<in> set rows. r_amount_paid r = map_of (Events shop) (r_event_id r)"
    by blast
  have ev: "map (\<lambda>(i, r). r_event_id r) (Registrations ?d2) = [event1, event2]" by code_simp
  from b(2) obtain j q where rows: "rows = [(j, q)]"
    by (cases rows) (auto simp: length_Suc_conv)
  with b(1) ev old have "r_event_id q = event2" by simp
  moreover have "map_of (Events shop) event2 = Some 200" by code_simp
  ultimately have "r_amount_paid q = Some 200" using b(3) rows by simp
  with s price old b(1) rows single batch show ?thesis by simp
qed

text \<open>
  Claim C2.  A valid batch (it passes the checks of lines 515-522, its \<open>N\<close> ids are
  distinct and every one has an Event) for a student who is found or created, \<open>K\<close> of
  whose requested events are registered already: when \<open>K < N\<close> the reply is
  \<^verbatim>\<open>{ok: true, count: N - K, skipped: K}\<close> and exactly \<open>N - K\<close> rows are appended to
  \<open>Registrations\<close>; when \<open>K = N\<close> the reply is the 400 "already registered for all
  selected events" and \<open>Registrations\<close> is as before.
\<close>

theorem batch_counts:
  assumes valid: "batch_checks b = None"
    and dist: "distinct (elements (b_event_ids b))"
    and exist: "\<forall>e \<in> set (elements (b_event_ids b)). ToString e \<in> fst ` set (Events d)"
    and student: "upsert_by_student_id cm d b = Inr (sid, d1)"
    and N: "N = length (elements (b_event_ids b))"
    and K: "K = length (filter (\<lambda>e. (sid, ToString e) \<in> set (map (pair_of \<circ> snd) (Registrations d)))
                        (elements (b_event_ids b)))"
  shows "(K < N \<longrightarrow>
            (\<exists>d' rows. post_register_batch cm d user b = (Reply 200 (OkCount (N - K) K), d')
               \<and> Registrations d' = Registrations d @ rows \<and> length rows = N - K))
       \<and> (K = N \<longrightarrow>
            post_register_batch cm d user b
              = (Reply 400 (Error ''Student is already registered for all selected events.''), d1)
            \<and> Registrations d1 = Registrations d)"
proof -
  let ?ids = "elements (b_event_ids b)"
  let ?P = "\<lambda>e. (sid, ToString e) \<in> set (map (pair_of \<circ> snd) (Registrations d))"
  let ?ev = "events_in_id d (map ToString ?ids)"
  let ?new = "newEventIds d1 sid ?ids"
  let ?rows = "registrations_for ?ev sid user b ?new"
  from batch_checks_elements [OF valid]
  have ne: "?ids \<noteq> []" and strs: "\<forall>v \<in> set ?ids. v = JStr (ToString v)" by simp_all
  from upsert_by_student_id_Inr [OF student]
  have regs: "Registrations d1 = Registrations d" by simp
  from ne obtain e where e: "e \<in> set ?ids" by (cases ?ids) auto
  with exist obtain c where "(ToString e, c) \<in> set (Events d)" by force
  with e have ev: "?ev \<noteq> []"
    by (auto simp: events_in_id_def filter_empty_conv)
  have new: "?new = filter (\<lambda>e. \<not> ?P e) ?ids"
    using newEventIds_filter [OF strs, of d1 sid] by (simp add: regs)
  have "length (filter ?P ?ids) + length (filter (\<lambda>e. \<not> ?P e) ?ids) = length ?ids"
    by (rule sum_length_filter_compl)
  then have len_new: "length ?new = N - K" and KN: "K \<le> N"
    by (simp_all add: new N K)
  have skipped: "length (alreadyRegistered d1 sid ?ids) = K"
    using length_alreadyRegistered [OF strs dist, of d1 sid] by (simp add: regs K)
  have unfold: "post_register_batch cm d user b =
      (if ?new = []
       then (Reply 400 (Error ''Student is already registered for all selected events.''), d1)
       else (case registrations_insert d1 ?rows of
               Inl regErr \<Rightarrow> (Reply 500 (ErrorDb ''Failed to create registration: '' regErr), d1)
             | Inr d2 \<Rightarrow> (Reply 200 (OkCount (length ?rows) (length (alreadyRegistered d1 sid ?ids))), d2)))"
    using valid ev student
    by (simp add: post_register_batch_def post_register_batch_with_def Let_def)
  show ?thesis
  proof (intro conjI impI)
    assume "K < N"
    then have "?new \<noteq> []" using len_new by auto
    moreover obtain d2 where ins: "registrations_insert d1 ?rows = Inr d2"
      using batch_insert_ok [OF strs dist] by blast
    ultimately have res: "post_register_batch cm d user b = (Reply 200 (OkCount (N - K) K), d2)"
      by (simp add: unfold length_registrations_for len_new skipped)
    from registrations_insert_Inr [OF ins]
    have "Registrations d2 = Registrations d @
            zip (map (id_pool d1) [id_used d1 ..< id_used d1 + length ?rows]) ?rows"
      by (simp add: regs)
    moreover have "length (zip (map (id_pool d1) [id_used d1 ..< id_used d1 + length ?rows]) ?rows) = N - K"
      by (simp add: length_registrations_for len_new)
    ultimately show "\<exists>d' rows. post_register_batch cm d user b = (Reply 200 (OkCount (N - K) K), d')
               \<and> Registrations d' = Registrations d @ rows \<and> length rows = N - K"
      using res by blast
  next
    assume "K = N"
    then have "?new = []" using len_new by simp
    then show "post_register_batch cm d user b
              = (Reply 400 (Error ''Student is already registered for all selected events.''), d1)"
      by (simp add: unfold)
  next
    show "Registrations d1 = Registrations d" by (rule regs)
  qed
qed

text \<open>
  Claim C2 on the spec's example (the student holds the first of the two events:
  count 1, skipped 1, one row more), and on a batch of the first event alone (400).
\<close>

theorem batch_counts_witness:
  "fst (post_register_batch ascii_case shop asha request) = Reply 200 (OkCount 1 1)
   \<and> length (Registrations (snd (post_register_batch ascii_case shop asha request)))
       = length (Registrations shop) + 1
   \<and> fst (post_register_batch ascii_case shop ravi (request\<lparr>b_event_ids := JList [JStr event1]\<rparr>))
       = Reply 400 (Error ''Student is already registered for all selected events.'')"
proof -
  let ?again = "request\<lparr>b_event_ids := JList [JStr event1]\<rparr>"
  have valid: "batch_checks request = None" "batch_checks ?again = None" by code_simp+
  have dist: "distinct (elements (b_event_ids request))" "distinct (elements (b_event_ids ?again))"
    by code_simp+
  have exist: "\<forall>e \<in> set (elements (b_event_ids request)). ToString e \<in> fst ` set (Events shop)"
    "\<forall>e \<in> set (elements (b_event_ids ?again)). ToString e \<in> fst ` set (Events shop)"
    by code_simp+
  have "case upsert_by_student_id ascii_case shop request of Inl x \<Rightarrow> False | Inr (sid, d1) \<Rightarrow> sid = student1"
    by code_simp
  then obtain d1 where up: "upsert_by_student_id ascii_case shop request = Inr (student1, d1)"
    by (auto split: sum.splits)
  have "case upsert_by_student_id ascii_case shop ?again of Inl x \<Rightarrow> False | Inr (sid, d1) \<Rightarrow> sid = student1"
    by code_simp
  then obtain d1' where up': "upsert_by_student_id ascii_case shop ?again = Inr (student1, d1')"
    by (auto split: sum.splits)
  have N: "length (elements (b_event_ids request)) = 2" "length (elements (b_event_ids ?again)) = 1"
    by code_simp+
  have K: "length (filter (\<lambda>e. (student1, ToString e) \<in> set (map (pair_of \<circ> snd) (Registrations shop)))
                     (elements (b_event_ids request))) = 1"
    "length (filter (\<lambda>e. (student1, ToString e) \<in> set (map (pair_of \<circ> snd) (Registrations shop)))
                     (elements (b_event_ids ?again))) = 1"
    by code_simp+
  from batch_counts [OF valid(1) dist(1) exist(1) up N(1) [symmetric] K(1) [symmetric], of asha]
    batch_counts [OF valid(2) dist(2) exist(2) up' N(2) [symmetric] K(2) [symmetric], of ravi]
  show ?thesis by auto
qed

text \<open>
  Claim C3 fails on the batch handler: line 532 refuses the request only when
  \<^emph>\<open>no\<close> requested event exists.  \<open>walk_in\<close> names the first event and an id without an
  Event; the handler does not answer "One or more events not found.", it creates the
  student and goes on to insert both rows, the second without a price.
\<close>

theorem batch_with_missing_event_proceeds:
  "event9 \<notin> fst ` set (Events shop)
   \<and> fst (post_register_batch ascii_case shop asha walk_in) = Reply 200 (OkCount 2 0)
   \<and> map (\<lambda>(i, s). s_student_id s) (Students (snd (post_register_batch ascii_case shop asha walk_in)))
        = [Some (js ''S001''), Some (js ''S777'')]
   \<and> map (\<lambda>(i, r). (r_event_id r, r_amount_paid r))
        (Registrations (snd (post_register_batch ascii_case shop asha walk_in)))
        = [(event1, Some 150), (event1, Some 150), (event9, None)]"
  by code_simp

text \<open>
  Claim C5 fails on the batch handler: lines 581-583 answer every error of the insert
  with status 500 and do not look for the code 23505, as the single-event handler
  does (lines 246-248 of \<^verbatim>\<open>server.js\<close>).  Here \<open>ravi\<close>'s identical request runs
  between \<open>asha\<close>'s check for existing registrations and her insert: the gateway refuses
  her batch with 23505, nothing of it is stored, and the reply is a 500.  The same
  happens, without any race, to a batch that names one event twice.
\<close>

theorem batch_race_is_500:
  "fst (post_register_batch_with (\<lambda>d. snd (post_register_batch ascii_case d ravi request))
          ascii_case shop asha request)
     = Reply 500 (ErrorDb ''Failed to create registration: '' (DbError ''23505''))
   \<and> map (\<lambda>(i, r). (r_event_id r, r_member_id r))
        (Registrations (snd (post_register_batch_with
            (\<lambda>d. snd (post_register_batch ascii_case d ravi request)) ascii_case shop asha request)))
        = [(event1, member1), (event2, member2)]
   \<and> fst (post_register_batch ascii_case shop asha
            (request\<lparr>b_event_ids := JList [JStr event2, JStr event2]\<rparr>))
     = Reply 500 (ErrorDb ''Failed to create registration: '' (DbError ''23505''))"
  by code_simp

text \<open>
  Claim C6, as the code has it.  Let the registration \<open>sale_id\<close> exist, made by the
  member \<open>r_member_id reg\<close>.  An actor who is neither admin nor that member changes
  nothing: an edit is answered by the validation error of lines 258-265 if the body
  is malformed and by 403 "Not authorized." otherwise, a delete by 403 (400 if the id
  is not a UUID), and the database is returned as it was.  For a well-formed request
  the reply has status 403 exactly when the actor is neither admin nor the owner.  In
  the first file of \<^verbatim>\<open>part_000\<close>, which has no roles, the same holds with the owner
  alone.
\<close>

theorem ownership_guard:
  assumes "single (registrations_eq_id d sale_id) = Inr (rid, reg)"
  shows "(u_role user \<noteq> admin \<and> u_id user \<noteq> r_member_id reg \<longrightarrow>
            put_sales cm d user sale_id b =
              (case put_checks sale_id b of Some r \<Rightarrow> r
               | None \<Rightarrow> Reply 403 (Error ''Not authorized.''), d)
          \<and> delete_sales d user sale_id =
              (if isUUID (JStr sale_id) then Reply 403 (Error ''Not authorized.'')
               else Reply 400 (Error ''Invalid ID.''), d))
       \<and> (put_checks sale_id b = None \<longrightarrow>
            (status (fst (put_sales cm d user sale_id b)) \<noteq> 403)
              = (u_role user = admin \<or> u_id user = r_member_id reg))
       \<and> (isUUID (JStr sale_id) \<longrightarrow>
            (status (fst (delete_sales d user sale_id)) \<noteq> 403)
              = (u_role user = admin \<or> u_id user = r_member_id reg))
       \<and> (sp_id sp \<noteq> r_member_id reg \<longrightarrow>
            put_sales_first cm d sp sale_id b =
              (case put_checks_first sale_id b of Some r \<Rightarrow> r
               | None \<Rightarrow> Reply 403 (Error ''Not authorized.''), d))
       \<and> (put_checks_first sale_id b = None \<longrightarrow>
            (status (fst (put_sales_first cm d sp sale_id b)) \<noteq> 403)
              = (sp_id sp = r_member_id reg))"
proof (intro conjI impI)
  assume "u_role user \<noteq> admin \<and> u_id user \<noteq> r_member_id reg"
  then show "put_sales cm d user sale_id b =
              (case put_checks sale_id b of Some r \<Rightarrow> r
               | None \<Rightarrow> Reply 403 (Error ''Not authorized.''), d)"
    and "delete_sales d user sale_id =
              (if isUUID (JStr sale_id) then Reply 403 (Error ''Not authorized.'')
               else Reply 400 (Error ''Invalid ID.''), d)"
    using put_sales_refuses [OF assms] delete_sales_refuses [OF assms] by simp_all
next
  assume v: "put_checks sale_id b = None"
  show "(status (fst (put_sales cm d user sale_id b)) \<noteq> 403)
              = (u_role user = admin \<or> u_id user = r_member_id reg)"
  proof (cases "u_role user = admin \<or> u_id user = r_member_id reg")
    case True
    from put_sales_permits [OF assms True v, of cm] True show ?thesis by auto
  next
    case False
    with put_sales_refuses [OF assms, of user cm b] v show ?thesis by simp
  qed
next
  assume v: "isUUID (JStr sale_id)"
  show "(status (fst (delete_sales d user sale_id)) \<noteq> 403)
              = (u_role user = admin \<or> u_id user = r_member_id reg)"
  proof (cases "u_role user = admin \<or> u_id user = r_member_id reg")
    case True
    from delete_sales_permits [OF assms True v] True show ?thesis by simp
  next
    case False
    with delete_sales_refuses [OF assms, of user] v show ?thesis by simp
  qed
next
  assume "sp_id sp \<noteq> r_member_id reg"
  then show "put_sales_first cm d sp sale_id b =
              (case put_checks_first sale_id b of Some r \<Rightarrow> r
               | None \<Rightarrow> Reply 403 (Error ''Not authorized.''), d)"
    by (rule put_sales_first_refuses [OF assms])
next
  assume v: "put_checks_first sale_id b = None"
  show "(status (fst (put_sales_first cm d sp sale_id b)) \<noteq> 403) = (sp_id sp = r_member_id reg)"
  proof (cases "sp_id sp = r_member_id reg")
    case True
    from put_sales_first_permits [OF assms True v, of cm] True show ?thesis by auto
  next
    case False
    with put_sales_first_refuses [OF assms, of sp cm b] v show ?thesis by simp
  qed
qed

text \<open>
  Claim C6 on \<open>shop\<close>: \<open>ravi\<close> may neither edit nor delete \<open>asha\<close>'s registration and the
  database stays \<open>shop\<close>; \<open>asha\<close> and the administrator are not refused.
\<close>

theorem ownership_guard_witness:
  "put_sales ascii_case shop ravi sale1 edit_request = (Reply 403 (Error ''Not authorized.''), shop)
   \<and> delete_sales shop ravi sale1 = (Reply 403 (Error ''Not authorized.''), shop)
   \<and> put_sales_first ascii_case shop ravi_first sale1 edit_request
        = (Reply 403 (Error ''Not authorized.''), shop)
   \<and> status (fst (put_sales ascii_case shop asha sale1 edit_request)) \<noteq> 403
   \<and> status (fst (delete_sales shop root sale1)) \<noteq> 403"
proof -
  have row: "single (registrations_eq_id shop sale1) = Inr (sale1, sale1_row)" by code_simp
  have ravi: "u_role ravi \<noteq> admin \<and> u_id ravi \<noteq> r_member_id sale1_row
              \<and> sp_id ravi_first \<noteq> r_member_id sale1_row" by code_simp
  have asha: "u_id asha = r_member_id sale1_row" by code_simp
  have root: "u_role root = admin" by code_simp
  have ok: "put_checks sale1 edit_request = None \<and> put_checks_first sale1 edit_request = None
            \<and> isUUID (JStr sale1)" by code_simp
  from ownership_guard [OF row, of ravi ascii_case edit_request ravi_first]
    ownership_guard [OF row, of asha ascii_case edit_request ravi_first]
    ownership_guard [OF row, of root ascii_case edit_request ravi_first]
    ravi asha root ok
  show ?thesis by simp
qed

text \<open>
  Claim C6 as stated fails on a malformed edit: \<open>ravi\<close>, who is neither admin nor the
  owner of \<open>sale1\<close>, sends an edit with an empty name and is answered 400 "Missing
  fields.", not 403: validation comes before the ownership check.
\<close>

theorem malformed_edit_is_400:
  "u_role ravi \<noteq> admin
   \<and> map (\<lambda>(i, r). r_member_id r = u_id ravi) (registrations_eq_id shop sale1) = [False]
   \<and> fst (put_sales ascii_case shop ravi sale1 (edit_request\<lparr>b_name := JStr []\<rparr>))
        = Reply 400 (Error ''Missing fields.'')"
  by code_simp

text \<open>
  Claim C10.  Whatever \<^verbatim>\<open>transaction_id\<close> the request carries, a row written by a
  successful create (single or batch) or edit has no transaction id when the payment
  method is cash, and has one only when the payment method is upi.
\<close>

theorem cash_stores_no_transaction_id:
  "(post_register cm d user b = (Reply 200 Ok, d') \<longrightarrow>
      (\<exists>i r. Registrations d' = Registrations d @ [(i, r)]
         \<and> (b_payment_method b = cash \<longrightarrow> r_transaction_id r = None)
         \<and> (r_transaction_id r \<noteq> None \<longrightarrow> b_payment_method b = upi)))
   \<and> (put_sales cm d user sale_id b = (Reply 200 Ok, d') \<longrightarrow>
      (\<forall>(i, r) \<in> set (Registrations d'). i = sale_id \<longrightarrow>
           (b_payment_method b = cash \<longrightarrow> r_transaction_id r = None)
         \<and> (r_transaction_id r \<noteq> None \<longrightarrow> b_payment_method b = upi)))
   \<and> (post_register_batch cm d user b = (Reply 200 (OkCount n k), d') \<longrightarrow>
      (\<exists>rows. Registrations d' = Registrations d @ rows
         \<and> (\<forall>(i, r) \<in> set rows.
               (b_payment_method b = cash \<longrightarrow> r_transaction_id r = None)
             \<and> (r_transaction_id r \<noteq> None \<longrightarrow> b_payment_method b = upi))))"
proof (intro conjI impI)
  assume "post_register cm d user b = (Reply 200 Ok, d')"
  from post_register_ok [OF this] txn_column_rule [of b]
  show "\<exists>i r. Registrations d' = Registrations d @ [(i, r)]
         \<and> (b_payment_method b = cash \<longrightarrow> r_transaction_id r = None)
         \<and> (r_transaction_id r \<noteq> None \<longrightarrow> b_payment_method b = upi)"
    by fastforce
next
  assume "put_sales cm d user sale_id b = (Reply 200 Ok, d')"
  from put_sales_ok [OF this] txn_column_rule [of b]
  show "\<forall>(i, r) \<in> set (Registrations d'). i = sale_id \<longrightarrow>
           (b_payment_method b = cash \<longrightarrow> r_transaction_id r = None)
         \<and> (r_transaction_id r \<noteq> None \<longrightarrow> b_payment_method b = upi)"
    by (auto split: if_splits)
next
  assume "post_register_batch cm d user b = (Reply 200 (OkCount n k), d')"
  from post_register_batch_ok [OF this] obtain rows ids where
    regs: "Registrations d' = Registrations d @ zip ids rows"
    and rows: "\<forall>r \<in> set rows. r_transaction_id r = txn_column b"
    by (auto simp: registrations_for_def Let_def)
  have "\<forall>(i, r) \<in> set (zip ids rows).
               (b_payment_method b = cash \<longrightarrow> r_transaction_id r = None)
             \<and> (r_transaction_id r \<noteq> None \<longrightarrow> b_payment_method b = upi)"
    using rows txn_column_rule [of b] by (auto dest: set_zip_rightD)
  with regs show "\<exists>rows. Registrations d' = Registrations d @ rows
         \<and> (\<forall>(i, r) \<in> set rows.
               (b_payment_method b = cash \<longrightarrow> r_transaction_id r = None)
             \<and> (r_transaction_id r \<noteq> None \<longrightarrow> b_payment_method b = upi))"
    by blast
qed

text \<open>
  Claim C10 on a cash request that carries the transaction id \<^verbatim>\<open>TXN42\<close>: the row
  written has none.
\<close>

theorem cash_stores_no_transaction_id_witness:
  "map (\<lambda>(i, r). r_transaction_id r)
     (Registrations (snd (post_register ascii_case shop asha
        (request\<lparr>b_transaction_id := JStr (js ''TXN42'')\<rparr>))))
     = [None, None]"
proof -
  let ?b = "request\<lparr>b_transaction_id := JStr (js ''TXN42'')\<rparr>"
  let ?d = "snd (post_register ascii_case shop asha ?b)"
  have "fst (post_register ascii_case shop asha ?b) = Reply 200 Ok" by code_simp
  then have "post_register ascii_case shop asha ?b = (Reply 200 Ok, ?d)" by (metis prod.collapse)
  moreover have "b_payment_method ?b = cash" by code_simp
  moreover have "map (\<lambda>(i, r). r_transaction_id r) (Registrations shop) = [None]" by code_simp
  ultimately show ?thesis
    using cash_stores_no_transaction_id [of ascii_case shop asha ?b ?d sale1 0 0] by auto
qed

section \<open>One registration per student and event\<close>

lemma map_snd_zip_eq: "length xs = length ys \<Longrightarrow> map snd (zip xs ys) = ys"
  by (induction xs ys rule: list_induct2) auto

lemma pairs_insert:
  assumes "registrations_insert d rows = Inr d'"
  shows "pairs d' = pairs d @ map pair_of rows"
proof -
  from registrations_insert_Inr [OF assms]
  have "Registrations d' = Registrations d @ zip (map (id_pool d) [id_used d ..< id_used d + length rows]) rows"
    by simp
  moreover have "map snd (zip (map (id_pool d) [id_used d ..< id_used d + length rows]) rows) = rows"
    by (rule map_snd_zip_eq) simp
  ultimately show ?thesis by (simp add: pairs_def flip: map_map)
qed

lemma insert_keeps_distinct:
  assumes "distinct (pairs d)" and "registrations_insert d rows = Inr d'"
  shows "distinct (pairs d')"
proof -
  from assms(2) have "distinct (map pair_of rows)"
    and "\<forall>r \<in> set rows. pair_of r \<notin> set (pairs d)"
    by (auto simp: registrations_insert_def pairs_def split: if_splits)
  with assms(1) show ?thesis by (auto simp: pairs_insert [OF assms(2)])
qed

lemma upsert_pairs:
  "upsert_by_phone cm d b = Inr (sid, d1) \<Longrightarrow> pairs d1 = pairs d"
  "upsert_by_student_id cm d b = Inr (sid, d1) \<Longrightarrow> pairs d1 = pairs d"
  using upsert_by_phone_Inr [of cm d b sid d1] upsert_by_student_id_Inr [of cm d b sid d1]
  by (simp_all add: pairs_def)

lemma post_register_distinct:
  assumes "distinct (pairs d)"
  shows "distinct (pairs (snd (post_register cm d user b)))"
proof (cases "register_checks b")
  case (Some r)
  with assms show ?thesis by (simp add: post_register_def)
next
  case None
  show ?thesis
  proof (cases "single (events_eq_id d (ToString (b_event_id b)))")
    case (Inl e)
    with None assms show ?thesis by (simp add: post_register_def)
  next
    case (Inr ev)
    show ?thesis
    proof (cases "upsert_by_phone cm d b")
      case (Inl x)
      then obtain r d0 where "upsert_by_phone cm d b = Inl (r, d0)" by (cases x) auto
      with upsert_by_phone_Inl [OF this] None Inr assms show ?thesis
        by (simp add: post_register_def split: prod.splits)
    next
      case up: (Inr y)
      then obtain sid d1 where y: "upsert_by_phone cm d b = Inr (sid, d1)" by (cases y) auto
      then have d1: "distinct (pairs d1)" using assms by (simp add: upsert_pairs)
      with None Inr y show ?thesis
        by (auto simp: post_register_def split: prod.splits sum.splits
            dest: insert_keeps_distinct)
    qed
  qed
qed

lemma post_register_batch_distinct:
  assumes "distinct (pairs d)"
  shows "distinct (pairs (snd (post_register_batch cm d user b)))"
proof (cases "batch_checks b")
  case (Some r)
  with assms show ?thesis by (simp add: post_register_batch_def post_register_batch_with_def)
next
  case None
  show ?thesis
  proof (cases "upsert_by_student_id cm d b")
    case (Inl x)
    then obtain r d0 where "upsert_by_student_id cm d b = Inl (r, d0)" by (cases x) auto
    with upsert_by_student_id_Inl [OF this] None assms show ?thesis
      by (simp add: post_register_batch_def post_register_batch_with_def Let_def)
  next
    case (Inr y)
    then obtain sid d1 where y: "upsert_by_student_id cm d b = Inr (sid, d1)" by (cases y) auto
    then have d1: "distinct (pairs d1)" using assms by (simp add: upsert_pairs)
    with None y assms show ?thesis
      by (auto simp: post_register_batch_def post_register_batch_with_def Let_def
          split: sum.splits dest: insert_keeps_distinct)
  qed
qed

lemma students_update_Students:
  "students_update d i f = Inr d' \<Longrightarrow>
     Students d' = map (\<lambda>(j, s). if j = i then (j, f s) else (j, s)) (Students d)"
  by (auto simp: students_update_def split: if_splits)

lemma maybeSingle_Some:
  "data_maybe (maybeSingle rows) = Some r \<Longrightarrow> rows = [r]"
  by (auto simp: data_maybe_def maybeSingle_def split: list.splits sum.splits)

lemma update_keeps_lookup:
  assumes keep: "\<And>j s. P (j, f s) = P (j, s)"
    and one: "filter P xs = [(i, s0)]"
  shows "\<exists>s. filter P (map (\<lambda>(j, s). if j = i then (j, f s) else (j, s)) xs) = [(i, s)]"
proof -
  let ?g = "\<lambda>(j, s). if j = i then (j, f s) else (j, s)"
  have "P \<circ> ?g = P" using keep by (auto simp: fun_eq_iff)
  then have "filter P (map ?g xs) = map ?g (filter P xs)" by (simp add: filter_map)
  with one show ?thesis by simp
qed

lemma upsert_by_phone_lookup:
  assumes "upsert_by_phone cm d b = Inr (sid, d1)"
  shows "\<exists>s. students_eq_phone d1 (ToString (b_phone b)) = [(sid, s)]"
proof (cases "data_maybe (maybeSingle (students_eq_phone d (ToString (b_phone b))))")
  case None
  let ?new = "\<lparr>s_student_id = None, s_name = sanitize (b_name b),
               s_phone_number = ToString (b_phone b),
               s_email = toLowerCase cm (sanitize (b_email b))\<rparr>"
  from assms None obtain s where ins: "students_insert d ?new = Inr (d1, (sid, s))"
    by (auto simp: upsert_by_phone_def Let_def split: sum.splits)
  then have noclash: "\<not> students_clash (Students d) ?new"
    and d1: "Students d1 = Students d @ [(sid, ?new)]"
    by (auto simp: students_insert_def Let_def split: if_splits)
  from noclash have "filter (\<lambda>(j, s). s_phone_number s = ToString (b_phone b)) (Students d) = []"
    by (auto simp: students_clash_def filter_empty_conv)
  with d1 show ?thesis by (simp add: students_eq_phone_def)
next
  case (Some row)
  obtain i s0 where row: "row = (i, s0)" by (cases row)
  from maybeSingle_Some [OF Some] row
  have one: "filter (\<lambda>(j, s). s_phone_number s = ToString (b_phone b)) (Students d) = [(i, s0)]"
    by (simp add: students_eq_phone_def)
  let ?f = "\<lambda>s. s\<lparr>s_name := sanitize (b_name b), s_email := toLowerCase cm (sanitize (b_email b))\<rparr>"
  from assms Some row have sid: "sid = i"
    and d1: "d1 = d \<or> students_update d i ?f = Inr d1"
    by (auto simp: upsert_by_phone_def Let_def split: sum.splits)
  from d1 show ?thesis
  proof
    assume "d1 = d" with one sid show ?thesis by (simp add: students_eq_phone_def)
  next
    assume "students_update d i ?f = Inr d1"
    from students_update_Students [OF this]
      update_keeps_lookup [of "\<lambda>(j, s). s_phone_number s = ToString (b_phone b)" ?f "Students d" i s0, OF _ one]
    show ?thesis by (simp add: students_eq_phone_def sid)
  qed
qed

lemma upsert_by_student_id_lookup:
  assumes "upsert_by_student_id cm d b = Inr (sid, d1)"
  shows "\<exists>s. students_eq_student_id d1 (toUpperCase cm (sanitize (b_student_id b))) = [(sid, s)]"
proof (cases "data_maybe (maybeSingle (students_eq_student_id d (toUpperCase cm (sanitize (b_student_id b)))))")
  case None
  let ?new = "\<lparr>s_student_id = Some (toUpperCase cm (sanitize (b_student_id b))),
               s_name = sanitize (b_name b), s_phone_number = ToString (b_phone b),
               s_email = toLowerCase cm (sanitize (b_email b))\<rparr>"
  from assms None obtain s where ins: "students_insert d ?new = Inr (d1, (sid, s))"
    by (auto simp: upsert_by_student_id_def Let_def split: sum.splits)
  then have noclash: "\<not> students_clash (Students d) ?new"
    and d1: "Students d1 = Students d @ [(sid, ?new)]"
    by (auto simp: students_insert_def Let_def split: if_splits)
  from noclash have "filter (\<lambda>(j, s). s_student_id s = Some (toUpperCase cm (sanitize (b_student_id b))))
                       (Students d) = []"
    by (auto simp: students_clash_def filter_empty_conv)
  with d1 show ?thesis by (simp add: students_eq_student_id_def)
next
  case (Some row)
  obtain i s0 where row: "row = (i, s0)" by (cases row)
  from maybeSingle_Some [OF Some] row
  have one: "filter (\<lambda>(j, s). s_student_id s = Some (toUpperCase cm (sanitize (b_student_id b))))
               (Students d) = [(i, s0)]"
    by (simp add: students_eq_student_id_def)
  let ?f = "\<lambda>s. s\<lparr>s_name := sanitize (b_name b), s_email := toLowerCase cm (sanitize (b_email b)),
                   s_phone_number := ToString (b_phone b)\<rparr>"
  from assms Some row have sid: "sid = i"
    and d1: "d1 = d \<or> students_update d i ?f = Inr d1"
    by (auto simp: upsert_by_student_id_def Let_def split: sum.splits)
  from d1 show ?thesis
  proof
    assume "d1 = d" with one sid show ?thesis by (simp add: students_eq_student_id_def)
  next
    assume "students_update d i ?f = Inr d1"
    from students_update_Students [OF this]
      update_keeps_lookup [of "\<lambda>(j, s). s_student_id s = Some (toUpperCase cm (sanitize (b_student_id b)))"
          ?f "Students d" i s0, OF _ one]
    show ?thesis by (simp add: students_eq_student_id_def sid)
  qed
qed

text \<open>A student who is found is never refused: the update's result is not looked at.\<close>

lemma upsert_by_phone_found:
  assumes "students_eq_phone d (ToString (b_phone b)) = [(sid, s)]"
  shows "\<exists>d1. upsert_by_phone cm d b = Inr (sid, d1) \<and> Registrations d1 = Registrations d
              \<and> Events d1 = Events d"
  using assms
  by (auto simp: upsert_by_phone_def Let_def data_maybe_def maybeSingle_def
      split: sum.splits dest: students_update_tables)

lemma upsert_by_student_id_found:
  assumes "students_eq_student_id d (toUpperCase cm (sanitize (b_student_id b))) = [(sid, s)]"
  shows "\<exists>d1. upsert_by_student_id cm d b = Inr (sid, d1) \<and> Registrations d1 = Registrations d
              \<and> Events d1 = Events d"
  using assms
  by (auto simp: upsert_by_student_id_def Let_def data_maybe_def maybeSingle_def
      split: sum.splits dest: students_update_tables)

lemma single_twice:
  assumes first: "post_register cm d user b = (Reply 200 Ok, d')"
    and valid: "register_checks b2 = None"
    and phone: "ToString (b_phone b2) = ToString (b_phone b)"
    and event: "b_event_id b2 = b_event_id b"
  shows "\<exists>d2. post_register cm d' user2 b2
               = (Reply 400 (Error ''Student already registered for this event.''), d2)
             \<and> Registrations d2 = Registrations d'"
proof -
  let ?eid = "ToString (b_event_id b)"
  from post_register_ok [OF first] obtain sid d1 cost where
    ev: "single (events_eq_id d ?eid) = Inr (?eid, cost)"
    and up: "upsert_by_phone cm d b = Inr (sid, d1)"
    and tabs: "Events d' = Events d" "Students d' = Students d1"
    and regs0: "Registrations d' = Registrations d @
             [(id_pool d1 (id_used d1),
               \<lparr>r_student_id = sid, r_event_id = ?eid, r_member_id = u_id user,
                r_payment_method = ToString (b_payment_method b),
                r_transaction_id = txn_column b, r_amount_paid = Some cost\<rparr>)]"
    by blast
  define i where "i = id_pool d1 (id_used d1)"
  define row where "row = \<lparr>r_student_id = sid, r_event_id = ?eid, r_member_id = u_id user,
                r_payment_method = ToString (b_payment_method b),
                r_transaction_id = txn_column b, r_amount_paid = Some cost\<rparr>"
  have regs: "Registrations d' = Registrations d @ [(i, row)]"
    and row: "pair_of row = (sid, ?eid)"
    using regs0 by (simp_all add: i_def row_def pair_of_def)
  from upsert_by_phone_lookup [OF up] obtain s where
    "students_eq_phone d1 (ToString (b_phone b)) = [(sid, s)]" by blast
  with tabs phone have "students_eq_phone d' (ToString (b_phone b2)) = [(sid, s)]"
    by (simp add: students_eq_phone_def)
  from upsert_by_phone_found [OF this, of cm] obtain d2 where
    up2: "upsert_by_phone cm d' b2 = Inr (sid, d2)" and d2: "Registrations d2 = Registrations d'"
    by blast
  from ev tabs event have ev2: "single (events_eq_id d' (ToString (b_event_id b2))) = Inr (?eid, cost)"
    by (simp add: events_eq_id_def)
  have "(sid, ?eid) \<in> set (map (pair_of \<circ> snd) (Registrations d2))"
    using regs row d2 by simp
  then have "registrations_insert d2
        [\<lparr>r_student_id = sid, r_event_id = ToString (b_event_id b2), r_member_id = u_id user2,
          r_payment_method = ToString (b_payment_method b2),
          r_transaction_id = txn_column b2, r_amount_paid = Some cost\<rparr>] = Inl (DbError ''23505'')"
    using event by (simp add: registrations_insert_def pair_of_def)
  with valid ev2 up2 d2 show ?thesis by (simp add: post_register_def)
qed

lemma batch_all_registered:
  assumes first: "post_register_batch cm d user b = (Reply 200 (OkCount n k), d')"
  shows "\<exists>sid s. students_eq_student_id d' (toUpperCase cm (sanitize (b_student_id b))) = [(sid, s)]
           \<and> (\<forall>e \<in> set (elements (b_event_ids b)). (sid, ToString e) \<in> set (pairs d'))"
proof -
  let ?ids = "elements (b_event_ids b)"
  from post_register_batch_ok [OF first] obtain sid d1 where
    valid: "batch_checks b = None"
    and up: "upsert_by_student_id cm d b = Inr (sid, d1)"
    and stu: "Students d' = Students d1"
    and regs: "Registrations d' = Registrations d @
          zip (map (id_pool d1) [id_used d1 ..< id_used d1 + length (newEventIds d1 sid ?ids)])
              (registrations_for (events_in_id d (map ToString ?ids)) sid user b (newEventIds d1 sid ?ids))"
    by auto
  let ?new = "newEventIds d1 sid ?ids"
  let ?rows = "registrations_for (events_in_id d (map ToString ?ids)) sid user b ?new"
  from batch_checks_elements [OF valid] have strs: "\<forall>v \<in> set ?ids. v = JStr (ToString v)" by simp
  have "map snd (zip (map (id_pool d1) [id_used d1 ..< id_used d1 + length ?new]) ?rows) = ?rows"
    by (rule map_snd_zip_eq) (simp add: length_registrations_for)
  with regs have "pairs d' = pairs d @ map pair_of ?rows"
    by (simp add: pairs_def flip: map_map)
  then have p: "pairs d' = pairs d @ map (\<lambda>e. (sid, ToString e)) ?new"
    by (simp only: map_pair_registrations_for)
  have "Registrations d1 = Registrations d" using upsert_by_student_id_Inr [OF up] by simp
  then have new: "?new = filter (\<lambda>e. (sid, ToString e) \<notin> set (pairs d)) ?ids"
    using newEventIds_filter [OF strs, of d1 sid] by (simp add: pairs_def)
  have "\<forall>e \<in> set ?ids. (sid, ToString e) \<in> set (pairs d')"
    unfolding p by (subst new) auto
  moreover from upsert_by_student_id_lookup [OF up] stu
  have "\<exists>s. students_eq_student_id d' (toUpperCase cm (sanitize (b_student_id b))) = [(sid, s)]"
    by (simp add: students_eq_student_id_def)
  ultimately show ?thesis by blast
qed

lemma batch_again:
  assumes valid: "batch_checks b2 = None"
    and found: "students_eq_student_id d (toUpperCase cm (sanitize (b_student_id b2))) = [(sid, s)]"
    and held: "\<forall>e \<in> E. (sid, ToString e) \<in> set (pairs d)"
  shows "(\<exists>rows. Registrations (snd (post_register_batch cm d user b2)) = Registrations d @ rows
            \<and> (\<forall>(j, row) \<in> set rows. JStr (r_event_id row) \<notin> E))
       \<and> (\<forall>n2 k2. fst (post_register_batch cm d user b2) = Reply 200 (OkCount n2 k2) \<longrightarrow>
            card (set (elements (b_event_ids b2)) \<inter> E) \<le> k2)
       \<and> (set (elements (b_event_ids b2)) \<subseteq> E \<longrightarrow>
            status (fst (post_register_batch cm d user b2)) = 400
          \<and> Registrations (snd (post_register_batch cm d user b2)) = Registrations d)"
proof -
  let ?ids = "elements (b_event_ids b2)"
  let ?ev = "events_in_id d (map ToString ?ids)"
  from upsert_by_student_id_found [OF found] obtain d1 where
    up: "upsert_by_student_id cm d b2 = Inr (sid, d1)" and d1: "Registrations d1 = Registrations d"
    by blast
  let ?new = "newEventIds d1 sid ?ids"
  let ?rows = "registrations_for ?ev sid user b2 ?new"
  let ?already = "alreadyRegistered d1 sid ?ids"
  from batch_checks_elements [OF valid] have strs: "\<forall>v \<in> set ?ids. v = JStr (ToString v)" by simp
  have p1: "pairs d1 = pairs d" using d1 by (simp add: pairs_def)
  have new: "?new = filter (\<lambda>e. (sid, ToString e) \<notin> set (pairs d)) ?ids"
    using newEventIds_filter [OF strs, of d1 sid] by (simp add: pairs_def d1)
  have unfold: "post_register_batch cm d user b2 =
      (if ?ev = [] then (Reply 400 (Error ''One or more events not found.''), d)
       else if ?new = []
       then (Reply 400 (Error ''Student is already registered for all selected events.''), d1)
       else (case registrations_insert d1 ?rows of
               Inl regErr \<Rightarrow> (Reply 500 (ErrorDb ''Failed to create registration: '' regErr), d1)
             | Inr d2 \<Rightarrow> (Reply 200 (OkCount (length ?rows) (length ?already)), d2)))"
    using valid up by (simp add: post_register_batch_def post_register_batch_with_def Let_def)
  have fresh_rows: "\<forall>row \<in> set ?rows. JStr (r_event_id row) \<notin> E"
  proof
    fix row assume "row \<in> set ?rows"
    then obtain e where e: "e \<in> set ?new" "r_event_id row = ToString e"
      by (auto simp: registrations_for_def Let_def)
    then have "e \<in> set ?ids" "(sid, ToString e) \<notin> set (pairs d)" by (simp_all add: new)
    with strs held e show "JStr (r_event_id row) \<notin> E" by metis
  qed
  have a: "\<exists>rows. Registrations (snd (post_register_batch cm d user b2)) = Registrations d @ rows
            \<and> (\<forall>(j, row) \<in> set rows. JStr (r_event_id row) \<notin> E)"
  proof (cases "?ev = [] \<or> ?new = []")
    case True
    then show ?thesis using d1 by (auto simp: unfold)
  next
    case False
    show ?thesis
    proof (cases "registrations_insert d1 ?rows")
      case (Inl e)
      with False d1 show ?thesis by (auto simp: unfold)
    next
      case (Inr d2)
      from registrations_insert_Inr [OF Inr] d1
      have "Registrations d2 = Registrations d @
              zip (map (id_pool d1) [id_used d1 ..< id_used d1 + length ?rows]) ?rows" by simp
      moreover have "\<forall>(j, row) \<in> set (zip (map (id_pool d1) [id_used d1 ..< id_used d1 + length ?rows]) ?rows).
                       JStr (r_event_id row) \<notin> E"
        using fresh_rows by (auto dest: set_zip_rightD)
      ultimately show ?thesis using False Inr by (auto simp: unfold)
    qed
  qed
  have b: "\<forall>n2 k2. fst (post_register_batch cm d user b2) = Reply 200 (OkCount n2 k2) \<longrightarrow>
            card (set ?ids \<inter> E) \<le> k2"
  proof (intro allI impI)
    fix n2 k2 assume "fst (post_register_batch cm d user b2) = Reply 200 (OkCount n2 k2)"
    then have k2: "k2 = length ?already"
      by (auto simp: unfold split: if_splits sum.splits)
    have "distinct ?already" by (simp add: alreadyRegistered_def)
    then have "length ?already = card (set ?already)" by (simp add: distinct_card)
    moreover have "ToString ` (set ?ids \<inter> E) \<subseteq> set ?already"
      using held p1 by (auto simp: set_alreadyRegistered pairs_def)
    then have "card (ToString ` (set ?ids \<inter> E)) \<le> card (set ?already)"
      by (rule card_mono [rotated]) simp
    moreover have "card (ToString ` (set ?ids \<inter> E)) = card (set ?ids \<inter> E)"
      by (rule card_image) (rule inj_on_subset [OF ToString_inj [OF strs]], simp)
    ultimately show "card (set ?ids \<inter> E) \<le> k2" using k2 by simp
  qed
  have c: "set ?ids \<subseteq> E \<longrightarrow>
            status (fst (post_register_batch cm d user b2)) = 400
          \<and> Registrations (snd (post_register_batch cm d user b2)) = Registrations d"
  proof
    assume "set ?ids \<subseteq> E"
    with held have "?new = []" by (auto simp: new filter_empty_conv)
    then show "status (fst (post_register_batch cm d user b2)) = 400
          \<and> Registrations (snd (post_register_batch cm d user b2)) = Registrations d"
      using d1 by (simp add: unfold)
  qed
  from a b c show ?thesis by blast
qed

text \<open>
  Claim C4.  With the gateway's uniqueness constraint, no run of either handler
  leaves two registrations for one (student, event) pair: \<open>distinct (pairs d)\<close> is kept.
  After a successful single-event registration, a second valid request for the same
  phone and event is answered 400 "Student already registered for this event." and
  adds no row.  After a successful batch for a student code, a second valid batch for
  the same code adds rows only for events that the first did not name, counts at
  least the events the two have in common as skipped when it succeeds, and, when it
  names no event beyond those of the first, is answered 400 and adds no row.
\<close>

theorem registering_twice:
  "(distinct (pairs d) \<longrightarrow>
       distinct (pairs (snd (post_register cm d user b)))
     \<and> distinct (pairs (snd (post_register_batch cm d user b))))
   \<and> (post_register cm d user b = (Reply 200 Ok, d') \<and> register_checks b2 = None
        \<and> ToString (b_phone b2) = ToString (b_phone b) \<and> b_event_id b2 = b_event_id b \<longrightarrow>
       fst (post_register cm d' user2 b2)
         = Reply 400 (Error ''Student already registered for this event.'')
     \<and> Registrations (snd (post_register cm d' user2 b2)) = Registrations d')
   \<and> (post_register_batch cm d user b = (Reply 200 (OkCount n k), d') \<and> batch_checks b2 = None
        \<and> toUpperCase cm (sanitize (b_student_id b2)) = toUpperCase cm (sanitize (b_student_id b)) \<longrightarrow>
       (\<exists>rows. Registrations (snd (post_register_batch cm d' user2 b2)) = Registrations d' @ rows
          \<and> (\<forall>(j, row) \<in> set rows. JStr (r_event_id row) \<notin> set (elements (b_event_ids b))))
     \<and> (\<forall>n2 k2. fst (post_register_batch cm d' user2 b2) = Reply 200 (OkCount n2 k2) \<longrightarrow>
          card (set (elements (b_event_ids b2)) \<inter> set (elements (b_event_ids b))) \<le> k2)
     \<and> (set (elements (b_event_ids b2)) \<subseteq> set (elements (b_event_ids b)) \<longrightarrow>
          status (fst (post_register_batch cm d' user2 b2)) = 400
        \<and> Registrations (snd (post_register_batch cm d' user2 b2)) = Registrations d'))"
proof (intro conjI impI)
  assume "distinct (pairs d)"
  then show "distinct (pairs (snd (post_register cm d user b)))"
    and "distinct (pairs (snd (post_register_batch cm d user b)))"
    by (rule post_register_distinct, rule post_register_batch_distinct)
next
  assume a: "post_register cm d user b = (Reply 200 Ok, d') \<and> register_checks b2 = None
        \<and> ToString (b_phone b2) = ToString (b_phone b) \<and> b_event_id b2 = b_event_id b"
  then obtain d2 where
    "post_register cm d' user2 b2 = (Reply 400 (Error ''Student already registered for this event.''), d2)"
    "Registrations d2 = Registrations d'"
    using single_twice [of cm d user b d' b2 user2] by blast
  then show "fst (post_register cm d' user2 b2)
         = Reply 400 (Error ''Student already registered for this event.'')"
    and "Registrations (snd (post_register cm d' user2 b2)) = Registrations d'"
    by simp_all
next
  assume a: "post_register_batch cm d user b = (Reply 200 (OkCount n k), d') \<and> batch_checks b2 = None
        \<and> toUpperCase cm (sanitize (b_student_id b2)) = toUpperCase cm (sanitize (b_student_id b))"
  then obtain sid s where
    found: "students_eq_student_id d' (toUpperCase cm (sanitize (b_student_id b2))) = [(sid, s)]"
    and held: "\<forall>e \<in> set (elements (b_event_ids b)). (sid, ToString e) \<in> set (pairs d')"
    using batch_all_registered [of cm d user b n k d'] by auto
  from a have valid: "batch_checks b2 = None" by simp
  note again = batch_again [OF valid found held, of user2]
  from again show "\<exists>rows. Registrations (snd (post_register_batch cm d' user2 b2)) = Registrations d' @ rows
          \<and> (\<forall>(j, row) \<in> set rows. JStr (r_event_id row) \<notin> set (elements (b_event_ids b)))"
    by blast
  from again show "\<forall>n2 k2. fst (post_register_batch cm d' user2 b2) = Reply 200 (OkCount n2 k2) \<longrightarrow>
          card (set (elements (b_event_ids b2)) \<inter> set (elements (b_event_ids b))) \<le> k2"
    by blast
  assume "set (elements (b_event_ids b2)) \<subseteq> set (elements (b_event_ids b))"
  with again show "status (fst (post_register_batch cm d' user2 b2)) = 400"
    and "Registrations (snd (post_register_batch cm d' user2 b2)) = Registrations d'"
    by blast+
qed

text \<open>
  Claim C4 on \<open>shop\<close>: \<open>asha\<close> registers the student, then \<open>ravi\<close> sends the same request
  and is answered 400, for the single-event and for the batch handler.
\<close>

theorem registering_twice_witness:
  "fst (post_register ascii_case (snd (post_register ascii_case shop asha request)) ravi request)
     = Reply 400 (Error ''Student already registered for this event.'')
   \<and> status (fst (post_register_batch ascii_case
                    (snd (post_register_batch ascii_case shop asha request)) ravi request)) = 400
   \<and> distinct (pairs (snd (post_register ascii_case shop asha request)))
   \<and> distinct (pairs (snd (post_register_batch ascii_case shop asha request)))"
proof -
  let ?d1 = "snd (post_register ascii_case shop asha request)"
  let ?d2 = "snd (post_register_batch ascii_case shop asha request)"
  have "fst (post_register ascii_case shop asha request) = Reply 200 Ok" by code_simp
  then have r1: "post_register ascii_case shop asha request = (Reply 200 Ok, ?d1)"
    by (metis prod.collapse)
  have "fst (post_register_batch ascii_case shop asha request) = Reply 200 (OkCount 1 1)" by code_simp
  then have r2: "post_register_batch ascii_case shop asha request = (Reply 200 (OkCount 1 1), ?d2)"
    by (metis prod.collapse)
  have valid: "register_checks request = None" "batch_checks request = None" by code_simp+
  have inv: "distinct (pairs shop)" by code_simp
  from registering_twice [of shop ascii_case asha request ?d1 request ravi 1 1]
    registering_twice [of shop ascii_case asha request ?d2 request ravi 1 1]
    r1 r2 valid inv
  show ?thesis by simp
qed

section \<open>The lifetime of a session\<close>

lemma run_snoc: "run s (acts @ [a]) = step (run s acts) a"
  by (simp add: run_def)

lemma login_other:
  assumes "k \<noteq> tok"
  shows "sessions (login_session k i s) tok = sessions s tok"
    and "now (login_session k i s) = now s"
    and "set (timers (login_session k i s)) = insert (now s + ttl, k) (set (timers s))"
  using assms by (simp_all add: login_session_def)

lemma logout_effect:
  "now (snd (post_logout s hdr)) = now s"
  "timers (snd (post_logout s hdr)) = timers s"
  "sessions (snd (post_logout s hdr)) tok =
     (if hdr = Some tok \<and> tok \<noteq> [] then None else sessions s tok)"
  by (auto simp: post_logout_def requireAuth_def split: option.splits)

lemma advance_effect:
  "now (advance ms s) = now s + ms"
  "set (timers (advance ms s)) = {(t, k) \<in> set (timers s). \<not> t \<le> now s + ms}"
  "sessions (advance ms s) tok =
     (if \<exists>t. (t, tok) \<in> set (timers s) \<and> t \<le> now s + ms then None else sessions s tok)"
  by (auto simp: advance_def Let_def image_iff)

lemma session_invariant:
  assumes fresh: "\<forall>(t, k) \<in> set (timers s). k \<noteq> tok"
    and tok: "tok \<noteq> []"
    and once: "\<forall>i. Login tok i \<notin> set acts"
  shows "sessions (run (login_session tok ident s) acts) tok
           = (if now (run (login_session tok ident s) acts) < now s + ttl
                 \<and> Logout (Some tok) \<notin> set acts
              then Some ident else None)
       \<and> (\<forall>(t, k) \<in> set (timers (run (login_session tok ident s) acts)). k = tok \<longrightarrow> t = now s + ttl)
       \<and> (now (run (login_session tok ident s) acts) < now s + ttl \<longrightarrow>
            (now s + ttl, tok) \<in> set (timers (run (login_session tok ident s) acts)))"
  using once
proof (induction acts rule: rev_induct)
  case Nil
  show ?case using fresh by (auto simp: run_def login_session_def ttl_def)
next
  case (snoc a acts)
  let ?s = "run (login_session tok ident s) acts"
  let ?T = "now s + ttl"
  from snoc.prems have "\<forall>i. Login tok i \<notin> set acts" by auto
  with snoc.IH have
    ses: "sessions ?s tok = (if now ?s < ?T \<and> Logout (Some tok) \<notin> set acts then Some ident else None)"
    and tim: "\<forall>(t, k) \<in> set (timers ?s). k = tok \<longrightarrow> t = ?T"
    and pend: "now ?s < ?T \<longrightarrow> (?T, tok) \<in> set (timers ?s)"
    by simp_all
  show ?case
  proof (cases a)
    case (Login k i)
    with snoc.prems have "k \<noteq> tok" by auto
    with ses tim pend Login show ?thesis
      by (auto simp: run_snoc login_other)
  next
    case (Logout hdr)
    with ses tim pend tok show ?thesis
      by (auto simp: run_snoc logout_effect)
  next
    case (Use hdr)
    with ses tim pend show ?thesis by (auto simp: run_snoc)
  next
    case (Wait ms)
    have n: "now (advance ms ?s) = now ?s + ms" by (simp add: advance_effect)
    have t: "set (timers (advance ms ?s)) = {(t, k) \<in> set (timers ?s). \<not> t \<le> now ?s + ms}"
      by (simp add: advance_effect)
    have due: "(\<exists>t. (t, tok) \<in> set (timers ?s) \<and> t \<le> now ?s + ms)
                 = ((?T, tok) \<in> set (timers ?s) \<and> ?T \<le> now ?s + ms)"
      using tim by auto
    have s: "sessions (advance ms ?s) tok
               = (if (?T, tok) \<in> set (timers ?s) \<and> ?T \<le> now ?s + ms then None else sessions ?s tok)"
      by (simp add: advance_effect due)
    show ?thesis
      unfolding Wait run_snoc step.simps n t s
      using ses tim pend by (auto split: if_splits)
  qed
qed


lemma token1_ok: "token1 \<noteq> []" by (simp add: token1_def js_def)

text \<open>
  Claim C8, on the simulated clock.  Let a login store the token \<open>tok\<close> at time \<open>now s\<close>,
  with no callback pending for \<open>tok\<close> (it was not handed out in the twelve hours
  before) and \<open>tok\<close> not drawn again by a later login.  After any sequence of logins,
  logouts, other requests and waits, a request that presents \<open>tok\<close> passes
  \<^verbatim>\<open>requireAuth\<close> with the identity stored at login exactly when less than \<open>ttl\<close>
  milliseconds, that is twelve hours, have passed since the login and no logout has
  presented \<open>tok\<close>; otherwise it is answered 401.  Requests made with the token do not
  prolong it.
\<close>

theorem session_lifetime:
  assumes "\<forall>(t, k) \<in> set (timers s). k \<noteq> tok"
    and "tok \<noteq> []"
    and "\<forall>i. Login tok i \<notin> set acts"
  shows "ttl = 12 * 60 * 60 * 1000
       \<and> requireAuth (run (login_session tok ident s) acts) (Some tok)
           = (if now (run (login_session tok ident s) acts) < now s + ttl
                 \<and> Logout (Some tok) \<notin> set acts
              then Inr ident else Inl (Reply 401 (Error ''Not logged in.'')))"
  using session_invariant [OF assms, of ident] assms(2)
  by (simp add: requireAuth_def ttl_def)

text \<open>
  Claim C8 from an empty store: one millisecond before the twelve hours are over the
  token still resolves to \<open>asha\<close>, at twelve hours it is refused, and it is refused
  right after a logout.
\<close>

theorem session_lifetime_witness:
  "requireAuth (run (login_session token1 asha boot) [Wait 1000, Use (Some token1), Wait 43198999]) (Some token1)
     = Inr asha
   \<and> requireAuth (run (login_session token1 asha boot) [Wait 1000, Use (Some token1), Wait 43199000]) (Some token1)
     = Inl (Reply 401 (Error ''Not logged in.''))
   \<and> requireAuth (run (login_session token1 asha boot) [Wait 1000, Logout (Some token1)]) (Some token1)
     = Inl (Reply 401 (Error ''Not logged in.''))"
proof -
  have fresh: "\<forall>(t, k) \<in> set (timers boot). k \<noteq> token1" by (simp add: boot_def)
  have n0: "now boot = 0" by (simp add: boot_def)
  have n: "now (run (login_session token1 asha boot) [Wait 1000, Use (Some token1), Wait 43198999]) = 43199999"
     "now (run (login_session token1 asha boot) [Wait 1000, Use (Some token1), Wait 43199000]) = 43200000"
    by (simp_all add: run_def advance_effect login_session_def boot_def)
  have once: "\<forall>i. Login token1 i \<notin> set [Wait 1000, Use (Some token1), Wait 43198999]"
    "\<forall>i. Login token1 i \<notin> set [Wait 1000, Use (Some token1), Wait 43199000]"
    "\<forall>i. Login token1 i \<notin> set [Wait 1000, Logout (Some token1)]"
    by simp_all
  from session_lifetime [OF fresh token1_ok once(1), of asha]
    session_lifetime [OF fresh token1_ok once(2), of asha]
    session_lifetime [OF fresh token1_ok once(3), of asha] n n0
  show ?thesis by simp
qed

end
